theory Spec2Isabelle
  imports Complex_Main "HOL-Library.Sublist" "HOL-Library.AList"
begin

section \<open>Python values and outcomes\<close>

text \<open>
  A Python \<^verbatim>\<open>float\<close>: a finite value (one of the doubles, as a real), the two
  infinities and not-a-number. \<^verbatim>\<open>json.loads\<close> produces the last three from
  \<^verbatim>\<open>Infinity\<close>, \<^verbatim>\<open>-Infinity\<close> and \<^verbatim>\<open>NaN\<close>, and an infinity
  from a literal beyond the doubles such as \<^verbatim>\<open>1e400\<close>.
\<close>

datatype py_float = Finite real | PosInf | NegInf | NaN

text \<open>
  The values that \<^verbatim>\<open>json.loads\<close> produces and that the module passes around as
  \<^verbatim>\<open>Dict[str, Any]\<close>. A dict is an association list in insertion order; a lookup
  takes the first entry of a key (a parsed dict has every key once).
\<close>

datatype json =
    JNull
  | JBool bool
  | JInt int
  | JFloat py_float
  | JStr string
  | JArr "json list"
  | JObj "(string \<times> json) list"

text \<open>
  The exceptions the module can meet, by their Python class: all of them are
  subclasses of \<^verbatim>\<open>Exception\<close>, which is what the handlers of the module catch.
\<close>

datatype py_error =
    KeyError string
  | TypeError
  | AttributeError
  | UnicodeDecodeError
  | JSONDecodeError
  | ValueError
  | RecursionError
  | OverflowError
  | ConnectionResetError
  | BrokenPipeError
  | ProcessLookupError
  | InvalidStateError
  | FileNotFoundError string
  | OSError
  | Exception string

text \<open>
  What a call does: it returns a value, raises, or never returns (an
  \<^verbatim>\<open>await\<close> that nothing wakes up).
\<close>

datatype 'a outcome = Returns 'a | Raises py_error | Hangs

text \<open>Sequencing: the second step runs on the value the first returns.\<close>

definition and_then :: "'a outcome \<Rightarrow> ('a \<Rightarrow> 'b outcome) \<Rightarrow> 'b outcome" where
  "and_then m f = (case m of Returns x \<Rightarrow> f x | Raises e \<Rightarrow> Raises e | Hangs \<Rightarrow> Hangs)"

text \<open>
  The standard-library functions the module calls, taken as parameters:
  \<^verbatim>\<open>str()\<close> as an f-string applies it to a value that is not already a
  \<^verbatim>\<open>str\<close>, \<^verbatim>\<open>json.dumps\<close>, \<^verbatim>\<open>json.loads\<close>, \<^verbatim>\<open>bytes.decode\<close>
  (\<open>None\<close> is \<^verbatim>\<open>UnicodeDecodeError\<close>) and \<^verbatim>\<open>str.strip\<close>.
  \<^verbatim>\<open>json.loads\<close> returns the value or the exception it raises: on a text that is
  not JSON that is \<^verbatim>\<open>JSONDecodeError\<close>, but it can be another one, such as
  \<^verbatim>\<open>RecursionError\<close> on a text nested too deeply and \<^verbatim>\<open>ValueError\<close> on
  an integer literal of more digits than \<^verbatim>\<open>int\<close> converts. \<^verbatim>\<open>str()\<close> and
  \<^verbatim>\<open>json.dumps\<close> are taken to return: the values of the module are those that
  \<^verbatim>\<open>json.loads\<close> has produced, among them no integer of more digits than
  \<^verbatim>\<open>str()\<close> converts.
\<close>

record pylib =
  py_str :: "json \<Rightarrow> string"
  json_dumps :: "json \<Rightarrow> string"
  json_loads :: "string \<Rightarrow> py_error + json"
  bytes_decode :: "string \<Rightarrow> string option"
  str_strip :: "string \<Rightarrow> string"

text \<open>\<^verbatim>\<open>f"{v}"\<close>: a \<^verbatim>\<open>str\<close> is inserted as it is, anything else through \<^verbatim>\<open>str()\<close>.\<close>

definition py_format :: "pylib \<Rightarrow> json \<Rightarrow> string" where
  "py_format L v = (case v of JStr s \<Rightarrow> s | _ \<Rightarrow> py_str L v)"

text \<open>\<^verbatim>\<open>for x in v\<close>: a list gives its elements, a dict its keys, a string its characters.\<close>

definition py_iter :: "json \<Rightarrow> json list outcome" where
  "py_iter v = (case v of
      JArr xs \<Rightarrow> Returns xs
    | JObj d \<Rightarrow> Returns (map (\<lambda>kv. JStr (fst kv)) d)
    | JStr s \<Rightarrow> Returns (map (\<lambda>c. JStr [c]) s)
    | _ \<Rightarrow> Raises TypeError)"

text \<open>\<^verbatim>\<open>sub in s\<close> on strings.\<close>

fun str_contains :: "string \<Rightarrow> string \<Rightarrow> bool" where
  "str_contains sub [] = (sub = [])"
| "str_contains sub (c # cs) = (prefix sub (c # cs) \<or> str_contains sub cs)"

text \<open>
  \<^verbatim>\<open>s.split(sep, 1)\<close> for a separator that is not empty and occurs in \<open>s\<close>:
  the parts before and after its first occurrence; \<open>None\<close> when it does not occur
  (the result then has one element).
\<close>

fun str_split1 :: "string \<Rightarrow> string \<Rightarrow> (string \<times> string) option" where
  "str_split1 sep [] = (if sep = [] then Some ([], []) else None)"
| "str_split1 sep (c # cs) =
     (if prefix sep (c # cs) then Some ([], drop (length sep) (c # cs))
      else map_option (\<lambda>(a, b). (c # a, b)) (str_split1 sep cs))"

text \<open>\<^verbatim>\<open>key in v\<close> for a string key: membership in a dict's keys, in a list, or as a substring.\<close>

definition py_in :: "string \<Rightarrow> json \<Rightarrow> bool outcome" where
  "py_in key v = (case v of
      JObj d \<Rightarrow> Returns (key \<in> set (map fst d))
    | JArr xs \<Rightarrow> Returns (JStr key \<in> set xs)
    | JStr s \<Rightarrow> Returns (str_contains key s)
    | _ \<Rightarrow> Raises TypeError)"

text \<open>\<^verbatim>\<open>v[key]\<close> for a string key: only a dict can be indexed by a string.\<close>

definition py_getitem :: "json \<Rightarrow> string \<Rightarrow> json outcome" where
  "py_getitem v key = (case v of
      JObj d \<Rightarrow> (case map_of d key of Some x \<Rightarrow> Returns x | None \<Rightarrow> Raises (KeyError key))
    | _ \<Rightarrow> Raises TypeError)"

text \<open>\<^verbatim>\<open>v.get(key, default)\<close>: a method of dicts only.\<close>

definition py_get :: "json \<Rightarrow> string \<Rightarrow> json \<Rightarrow> json outcome" where
  "py_get v key dflt = (case v of
      JObj d \<Rightarrow> (case map_of d key of Some x \<Rightarrow> Returns x | None \<Rightarrow> Returns dflt)
    | _ \<Rightarrow> Raises AttributeError)"

text \<open>The truth value of a value, as \<^verbatim>\<open>or\<close> and \<^verbatim>\<open>if\<close> take it.\<close>

definition py_truthy :: "json \<Rightarrow> bool" where
  "py_truthy v = (case v of
      JNull \<Rightarrow> False
    | JBool b \<Rightarrow> b
    | JInt i \<Rightarrow> i \<noteq> 0
    | JFloat f \<Rightarrow> f \<noteq> Finite 0
    | JStr s \<Rightarrow> s \<noteq> []
    | JArr xs \<Rightarrow> xs \<noteq> []
    | JObj d \<Rightarrow> d \<noteq> [])"

text \<open>\<^verbatim>\<open>len(v)\<close>: defined on strings, lists and dicts.\<close>

definition py_len :: "json \<Rightarrow> nat outcome" where
  "py_len v = (case v of
      JStr s \<Rightarrow> Returns (length s)
    | JArr xs \<Rightarrow> Returns (length xs)
    | JObj d \<Rightarrow> Returns (length d)
    | _ \<Rightarrow> Raises TypeError)"

text \<open>\<^verbatim>\<open>sep.join(parts)\<close>: every part must be a \<^verbatim>\<open>str\<close>.\<close>

fun str_join :: "string \<Rightarrow> json list \<Rightarrow> string outcome" where
  "str_join sep [] = Returns []"
| "str_join sep [JStr s] = Returns s"
| "str_join sep (JStr s # p # ps) =
     (case str_join sep (p # ps) of Returns r \<Rightarrow> Returns (s @ sep @ r) | Raises e \<Rightarrow> Raises e | Hangs \<Rightarrow> Hangs)"
| "str_join sep (_ # ps) = Raises TypeError"


section \<open>MCPServer\<close>

text \<open>
  An \<^verbatim>\<open>asyncio.Future\<close> is an object shared by the pending table and the
  coroutine that awaits it, so futures live in a store (\<open>futures\<close>, addressed by
  position) and the table holds addresses.
\<close>

datatype future = Waiting | Done json | Cancelled

text \<open>The child process: what has been written to its standard input.\<close>

record subprocess =
  stdin :: "string list"

record MCPServer =
  name :: string
  command :: json
  args :: json
  env :: json
  timeout :: json
  process :: "subprocess option"
  message_id_counter :: nat
  pending_requests :: "(string \<times> nat) list"
  futures :: "future list"
  tools :: json
  reader_running :: bool

text \<open>\<^verbatim>\<open>MCPServer.__init__\<close>.\<close>

definition MCPServer_init :: "string \<Rightarrow> json \<Rightarrow> json \<Rightarrow> json \<Rightarrow> json \<Rightarrow> MCPServer" where
  "MCPServer_init n c a e t =
     \<lparr>name = n, command = c, args = a, env = (if py_truthy e then e else JObj []),
      timeout = t, process = None,
      message_id_counter = 0, pending_requests = [], futures = [], tools = JArr [],
      reader_running = False\<rparr>"

subsection \<open>The reader loop\<close>

text \<open>
  The test \<^verbatim>\<open>"id" in message and message["id"] in self.pending_requests\<close>: the
  id when it holds. The keys of the table are strings, so an id of another type is
  not in it, and a list or a dict cannot be hashed.
\<close>

definition pending_id :: "MCPServer \<Rightarrow> json \<Rightarrow> string option outcome" where
  "pending_id self message =
     (case py_in ''id'' message of
        Raises e \<Rightarrow> Raises e
      | Hangs \<Rightarrow> Hangs
      | Returns False \<Rightarrow> Returns None
      | Returns True \<Rightarrow>
          (case py_getitem message ''id'' of
             Raises e \<Rightarrow> Raises e
           | Hangs \<Rightarrow> Hangs
           | Returns (JStr s) \<Rightarrow>
               Returns (if s \<in> set (map fst (pending_requests self)) then Some s else None)
           | Returns (JArr xs) \<Rightarrow> Raises TypeError
           | Returns (JObj d) \<Rightarrow> Raises TypeError
           | Returns _ \<Rightarrow> Returns None))"

text \<open>
  \<^verbatim>\<open>future.set_result(message)\<close> on the future at address \<open>a\<close>: allowed once, on
  a future that is still waiting.
\<close>

definition set_result :: "future list \<Rightarrow> nat \<Rightarrow> json \<Rightarrow> future list option" where
  "set_result fs a message =
     (if a < length fs \<and> fs ! a = Waiting then Some (fs[a := Done message]) else None)"

text \<open>
  The body of the inner \<^verbatim>\<open>try\<close> of \<^verbatim>\<open>_read_responses\<close> once the line is
  parsed: the new state, and the exception that leaves the body, if any.
\<close>

definition handle_message :: "MCPServer \<Rightarrow> json \<Rightarrow> MCPServer \<times> py_error option" where
  "handle_message self message =
     (case pending_id self message of
        Raises e \<Rightarrow> (self, Some e)
      | Hangs \<Rightarrow> (self, None)
      | Returns (Some rid) \<Rightarrow>
          (case map_of (pending_requests self) rid of
             None \<Rightarrow> (self, Some (KeyError rid))
           | Some a \<Rightarrow>
               (let popped = self\<lparr>pending_requests := AList.delete rid (pending_requests self)\<rparr>
                in case set_result (futures self) a message of
                     Some fs \<Rightarrow> (popped\<lparr>futures := fs\<rparr>, None)
                   | None \<Rightarrow> (popped, Some InvalidStateError)))
      | Returns None \<Rightarrow>
          (case py_in ''method'' message of
             Raises e \<Rightarrow> (self, Some e)
           | Hangs \<Rightarrow> (self, None)
           | Returns True \<Rightarrow>
               (case py_getitem message ''method'' of
                  Raises e \<Rightarrow> (self, Some e)
                | _ \<Rightarrow> (self, None))
           | Returns False \<Rightarrow> (self, None)))"

text \<open>
  \<^verbatim>\<open>start()\<close> opens the streams of the child with a limit of 10 MB, and
  \<^verbatim>\<open>readline\<close> raises \<^verbatim>\<open>ValueError\<close> on a line whose part before the
  newline is longer than the limit.
\<close>

definition stream_limit :: nat where
  "stream_limit = 10 * 1024 * 1024"

definition over_limit :: "string \<Rightarrow> bool" where
  "over_limit line =
     (stream_limit < length (if line \<noteq> [] \<and> last line = CHR 0x0A then butlast line else line))"

text \<open>
  The loop of \<^verbatim>\<open>_read_responses\<close> over the lines of the child's output, in order,
  each as \<^verbatim>\<open>readline\<close> finds it, with its newline; the empty line is the end
  of the stream. A \<^verbatim>\<open>JSONDecodeError\<close> is caught inside the loop; every other
  exception, of \<^verbatim>\<open>readline\<close>, of \<^verbatim>\<open>decode\<close>, of \<^verbatim>\<open>json.loads\<close> or of
  the handling of the message, reaches the outer handler, which ends the task. When
  the lines are used up the task is suspended in \<^verbatim>\<open>readline\<close>.
\<close>

fun read_responses_loop :: "pylib \<Rightarrow> string list \<Rightarrow> MCPServer \<Rightarrow> MCPServer" where
  "read_responses_loop L [] self = self"
| "read_responses_loop L (line # rest) self =
     (if over_limit line then self\<lparr>reader_running := False\<rparr>
      else if line = [] then self\<lparr>reader_running := False\<rparr>
      else (case bytes_decode L line of
              None \<Rightarrow> self\<lparr>reader_running := False\<rparr>
            | Some text \<Rightarrow>
                (case json_loads L (str_strip L text) of
                   Inl e \<Rightarrow>
                     (if e = JSONDecodeError then read_responses_loop L rest self
                      else self\<lparr>reader_running := False\<rparr>)
                 | Inr message \<Rightarrow>
                     (case handle_message self message of
                        (self', None) \<Rightarrow> read_responses_loop L rest self'
                      | (self', Some e) \<Rightarrow> self'\<lparr>reader_running := False\<rparr>))))"

text \<open>The reader task, given the next lines of the child's output; a finished task reads nothing.\<close>

definition read_responses :: "pylib \<Rightarrow> string list \<Rightarrow> MCPServer \<Rightarrow> MCPServer" where
  "read_responses L lines self =
     (if reader_running self \<and> process self \<noteq> None then read_responses_loop L lines self else self)"

subsection \<open>Requests and notifications\<close>

text \<open>\<^verbatim>\<open>self.process.stdin.write(data)\<close>.\<close>

definition stdin_write :: "MCPServer \<Rightarrow> string \<Rightarrow> MCPServer" where
  "stdin_write self data =
     self\<lparr>process := map_option (\<lambda>p. p\<lparr>stdin := stdin p @ [data]\<rparr>) (process self)\<rparr>"

text \<open>Lines 139 to 153 of the source: the request object and its future, entered in the table.\<close>

definition make_request :: "string \<Rightarrow> string \<Rightarrow> json \<Rightarrow> json" where
  "make_request request_id method params =
     JObj [(''jsonrpc'', JStr ''2.0''), (''id'', JStr request_id),
           (''method'', JStr method), (''params'', params)]"

definition register_request :: "MCPServer \<Rightarrow> string \<Rightarrow> MCPServer" where
  "register_request self request_id =
     self\<lparr>message_id_counter := message_id_counter self + 1,
          futures := futures self @ [Waiting],
          pending_requests := AList.update request_id (length (futures self)) (pending_requests self)\<rparr>"

definition timeout_error :: "pylib \<Rightarrow> MCPServer \<Rightarrow> json" where
  "timeout_error L self =
     JObj [(''error'', JObj [(''code'', JInt (- 1)),
       (''message'', JStr (''Request timeout after '' @ py_format L (timeout self) @ ''s''))])]"

text \<open>
  The environment of one \<^verbatim>\<open>_send_request\<close>: the id that \<^verbatim>\<open>uuid.uuid4()\<close>
  returns; what \<^verbatim>\<open>await drain()\<close> does, which returns, raises once the pipe to
  the child is lost, or never returns when the child does not read its input and the
  pipe is full; the lines the reader task takes from the child's output while the
  request is suspended, in \<^verbatim>\<open>drain()\<close> and in \<^verbatim>\<open>wait_for\<close> up to its
  deadline (with no deadline: ever); and the lines the reader task takes after
  \<^verbatim>\<open>wait_for\<close> has cancelled the future at the deadline and before
  \<^verbatim>\<open>_send_request\<close> runs again: \<^verbatim>\<open>wait_for\<close> gives the event loop a turn in
  between.
\<close>

record request_env =
  request_id :: string
  drain :: "unit outcome"
  incoming :: "string list"
  late :: "string list"

text \<open>
  What \<^verbatim>\<open>asyncio.wait_for(future, timeout)\<close> makes of the timeout. \<^verbatim>\<open>None\<close>
  is no deadline. Any other value is compared with \<open>0\<close>, which raises
  \<^verbatim>\<open>TypeError\<close> for a string, a list and a dict; a value that is positive is
  added to the clock, a \<^verbatim>\<open>float\<close>, which raises \<^verbatim>\<open>OverflowError\<close> for an
  \<^verbatim>\<open>int\<close> that rounds to no double, from \<^verbatim>\<open>2**1024 - 2**970\<close> on. The timer of
  the positive infinity never fires. Every other number, also a \<^verbatim>\<open>bool\<close>, a
  negative one and not-a-number, gives a deadline.
\<close>

datatype deadline = Deadline | NoDeadline | BadTimeout py_error

definition wait_deadline :: "json \<Rightarrow> deadline" where
  "wait_deadline t = (case t of
      JNull \<Rightarrow> NoDeadline
    | JBool b \<Rightarrow> Deadline
    | JInt i \<Rightarrow> (if 2 ^ 1024 - 2 ^ 970 \<le> i then BadTimeout OverflowError else Deadline)
    | JFloat f \<Rightarrow> (if f = PosInf then NoDeadline else Deadline)
    | JStr s \<Rightarrow> BadTimeout TypeError
    | JArr xs \<Rightarrow> BadTimeout TypeError
    | JObj d \<Rightarrow> BadTimeout TypeError)"

text \<open>
  \<^verbatim>\<open>_send_request\<close>. The request is registered and written, and the reader task
  runs while the request is suspended: it takes the lines of \<open>incoming\<close>. When
  \<^verbatim>\<open>drain()\<close> raises or never returns, so does the request, its entry still in the
  table: the timeout covers the wait for the response only. Then \<^verbatim>\<open>wait_for\<close>
  looks at the future. When it holds a message, that is the response. Otherwise, with
  no deadline, the request waits for ever; at the deadline \<^verbatim>\<open>wait_for\<close> cancels
  the future, the reader task takes the lines of \<open>late\<close>, and the handler then
  deletes the id from the table, which raises \<^verbatim>\<open>KeyError\<close> when the reader has
  popped it in between, and returns the timeout error.
\<close>

definition send_request ::
  "pylib \<Rightarrow> MCPServer \<Rightarrow> string \<Rightarrow> json \<Rightarrow> request_env \<Rightarrow> MCPServer \<times> json outcome" where
  "send_request L self method params E =
     (if process self = None
      then (self, Raises (Exception (''MCP server '' @ [CHR 0x27] @ name self @ [CHR 0x27] @ '' is not running'')))
      else
        (let a = length (futures self);
             registered = register_request self (request_id E);
             written = stdin_write registered
               (json_dumps L (make_request (request_id E) method params) @ [CHR 0x0A]);
             self' = read_responses L (incoming E) written
         in case drain E of
              Raises e \<Rightarrow> (self', Raises e)
            | Hangs \<Rightarrow> (self', Hangs)
            | Returns u \<Rightarrow>
                (case wait_deadline (timeout self) of
                   BadTimeout e \<Rightarrow> (self', Raises e)
                 | NoDeadline \<Rightarrow>
                     (case futures self' ! a of
                        Done response \<Rightarrow> (self', Returns response)
                      | _ \<Rightarrow> (self', Hangs))
                 | Deadline \<Rightarrow>
                     (case futures self' ! a of
                        Done response \<Rightarrow> (self', Returns response)
                      | _ \<Rightarrow>
                          (let cancelled = self'\<lparr>futures := (futures self')[a := Cancelled]\<rparr>;
                               raced = read_responses L (late E) cancelled
                           in if request_id E \<in> set (map fst (pending_requests raced))
                              then (raced\<lparr>pending_requests :=
                                      AList.delete (request_id E) (pending_requests raced)\<rparr>,
                                    Returns (timeout_error L self))
                              else (raced, Raises (KeyError (request_id E))))))))"

text \<open>\<^verbatim>\<open>_send_notification\<close>; \<open>drained\<close> is what its \<^verbatim>\<open>await drain()\<close> does.\<close>

definition send_notification ::
  "pylib \<Rightarrow> MCPServer \<Rightarrow> string \<Rightarrow> json option \<Rightarrow> unit outcome \<Rightarrow> MCPServer \<times> unit outcome" where
  "send_notification L self method params drained =
     (if process self = None
      then (self, Raises (Exception (''MCP server '' @ [CHR 0x27] @ name self @ [CHR 0x27] @ '' is not running'')))
      else
        (let notification =
               JObj ([(''jsonrpc'', JStr ''2.0''), (''method'', JStr method)] @
                     (case params of None \<Rightarrow> [] | Some p \<Rightarrow> [(''params'', p)]));
             written = stdin_write self (json_dumps L notification @ [CHR 0x0A])
         in (written, drained)))"

subsection \<open>call_tool\<close>

text \<open>The loop of \<^verbatim>\<open>call_tool\<close> over the content list.\<close>

fun content_loop :: "json list \<Rightarrow> json list \<Rightarrow> json list \<Rightarrow> (json list \<times> json list) outcome" where
  "content_loop [] text_parts images = Returns (text_parts, images)"
| "content_loop (item # rest) text_parts images =
     and_then (py_get item ''type'' JNull) (\<lambda>ty.
       if ty = JStr ''text''
       then and_then (py_get item ''text'' (JStr [])) (\<lambda>t.
              content_loop rest (text_parts @ [t]) images)
       else and_then (py_get item ''type'' JNull) (\<lambda>ty'.
         if ty' = JStr ''image''
         then and_then (py_get item ''data'' (JStr [])) (\<lambda>d.
              and_then (py_get item ''mimeType'' (JStr ''image/png'')) (\<lambda>m.
                content_loop rest text_parts (images @ [JObj [(''data'', d), (''mimeType'', m)]])))
         else content_loop rest text_parts images))"

text \<open>\<^verbatim>\<open>call_tool\<close> from line 239 on: what it makes of the response.\<close>

definition call_tool_result :: "pylib \<Rightarrow> json \<Rightarrow> json outcome" where
  "call_tool_result L response =
     and_then (py_in ''error'' response) (\<lambda>has_error.
       if has_error
       then and_then (py_getitem response ''error'') (\<lambda>err.
            and_then (py_getitem err ''message'') (\<lambda>msg.
              Returns (JObj [(''error'', msg), (''isError'', JBool True)])))
       else and_then (py_get response ''result'' (JObj [])) (\<lambda>result.
            and_then (py_get result ''content'' (JArr [])) (\<lambda>content.
            and_then (py_iter content) (\<lambda>items.
            and_then (content_loop items [] []) (\<lambda>(text_parts, images).
            and_then (py_get result ''isError'' (JBool False)) (\<lambda>is_error.
            and_then (if text_parts \<noteq> []
                      then and_then (str_join [CHR 0x0A] text_parts) (\<lambda>joined. Returns (JStr joined))
                      else Returns (JStr (json_dumps L result))) (\<lambda>result_text.
              Returns (JObj ([(''isError'', is_error), (''result'', result_text)] @
                             (if images \<noteq> [] then [(''images'', JArr images)] else []))))))))))"

text \<open>The parameters of a \<^verbatim>\<open>tools/call\<close> request.\<close>

definition tools_call :: "string \<Rightarrow> json \<Rightarrow> json" where
  "tools_call tool_name arguments = JObj [(''name'', JStr tool_name), (''arguments'', arguments)]"

definition MCPServer_call_tool ::
  "pylib \<Rightarrow> MCPServer \<Rightarrow> string \<Rightarrow> json \<Rightarrow> request_env \<Rightarrow> MCPServer \<times> json outcome" where
  "MCPServer_call_tool L self tool_name arguments E =
     (case send_request L self ''tools/call'' (tools_call tool_name arguments) E of
        (self', Returns response) \<Rightarrow> (self', call_tool_result L response)
      | (self', Raises e) \<Rightarrow> (self', Raises e)
      | (self', Hangs) \<Rightarrow> (self', Hangs))"

subsection \<open>start\<close>

definition fetch_tools :: "pylib \<Rightarrow> MCPServer \<Rightarrow> request_env \<Rightarrow> MCPServer \<times> unit outcome" where
  "fetch_tools L self E =
     (case send_request L self ''tools/list'' (JObj []) E of
        (self', Raises e) \<Rightarrow> (self', Raises e)
      | (self', Hangs) \<Rightarrow> (self', Hangs)
      | (self', Returns response) \<Rightarrow>
          (case py_in ''error'' response of
             Raises e \<Rightarrow> (self', Raises e)
           | Hangs \<Rightarrow> (self', Hangs)
           | Returns True \<Rightarrow>
               (self', and_then (py_getitem response ''error'') (\<lambda>err. Returns ()))
           | Returns False \<Rightarrow>
               (case and_then (py_get response ''result'' (JObj []))
                       (\<lambda>result. py_get result ''tools'' (JArr [])) of
                  Raises e \<Rightarrow> (self', Raises e)
                | Hangs \<Rightarrow> (self', Hangs)
                | Returns ts \<Rightarrow>
                    (self'\<lparr>tools := ts\<rparr>, and_then (py_len ts) (\<lambda>n. Returns ())))))"

text \<open>
  The environment of one \<^verbatim>\<open>start()\<close>: an exception of the library calls that
  prepare the environment variables, the path \<^verbatim>\<open>shutil.which\<close> finds, an
  exception of \<^verbatim>\<open>create_subprocess_exec\<close>, and the environments of the three
  messages of the handshake.
\<close>

record start_env =
  environ_error :: "py_error option"
  command_path :: "string option"
  spawn_error :: "py_error option"
  initialize_env :: request_env
  initialized_drain :: "unit outcome"
  tools_list_env :: request_env

definition initialize_params :: json where
  "initialize_params =
     JObj [(''protocolVersion'', JStr ''2024-11-05''),
           (''capabilities'', JObj [(''roots'', JObj [(''listChanged'', JBool True)]),
                                     (''sampling'', JObj [])]),
           (''clientInfo'', JObj [(''name'', JStr ''openai-realtime-mcp-client''),
                                   (''version'', JStr ''1.0.0'')])]"

definition initialize :: "pylib \<Rightarrow> MCPServer \<Rightarrow> start_env \<Rightarrow> MCPServer \<times> unit outcome" where
  "initialize L self E =
     (case send_request L self ''initialize'' initialize_params (initialize_env E) of
        (s1, Raises e) \<Rightarrow> (s1, Raises e)
      | (s1, Hangs) \<Rightarrow> (s1, Hangs)
      | (s1, Returns init_response) \<Rightarrow>
          (case py_in ''error'' init_response of
             Raises e \<Rightarrow> (s1, Raises e)
           | Hangs \<Rightarrow> (s1, Hangs)
           | Returns True \<Rightarrow>
               (s1, and_then (py_getitem init_response ''error'') (\<lambda>err.
                      Raises (Exception (''Initialize failed: '' @ py_format L err))))
           | Returns False \<Rightarrow>
               (case send_notification L s1 ''notifications/initialized'' None
                       (initialized_drain E) of
                  (s2, Raises e) \<Rightarrow> (s2, Raises e)
                | (s2, Hangs) \<Rightarrow> (s2, Hangs)
                | (s2, Returns u) \<Rightarrow> fetch_tools L s2 (tools_list_env E))))"

definition MCPServer_start :: "pylib \<Rightarrow> MCPServer \<Rightarrow> start_env \<Rightarrow> MCPServer \<times> unit outcome" where
  "MCPServer_start L self E =
     (case environ_error E of
        Some e \<Rightarrow> (self, Raises e)
      | None \<Rightarrow>
          (case command_path E of
             None \<Rightarrow> (self, Raises (FileNotFoundError (''Command not found: '' @ py_format L (command self))))
           | Some path \<Rightarrow>
               (if path = []
                then (self, Raises (FileNotFoundError (''Command not found: '' @ py_format L (command self))))
                else (case spawn_error E of
                        Some e \<Rightarrow> (self, Raises e)
                      | None \<Rightarrow>
                          initialize L
                            (self\<lparr>process := Some \<lparr>stdin = []\<rparr>, reader_running := True\<rparr>) E))))"

subsection \<open>stop\<close>

text \<open>
  The environment of one \<^verbatim>\<open>stop()\<close>: the exception of
  \<^verbatim>\<open>process.terminate()\<close>, which raises \<^verbatim>\<open>ProcessLookupError\<close> once the
  child has exited and its transport is closed; whether the child exits within the
  five seconds of \<^verbatim>\<open>wait_for\<close>; the exception of \<^verbatim>\<open>process.kill()\<close>; and
  whether the child exits after the kill, so that the last \<^verbatim>\<open>process.wait()\<close>
  returns.
\<close>

record stop_env =
  terminate_error :: "py_error option"
  exits_in_time :: bool
  kill_error :: "py_error option"
  exits_after_kill :: bool

text \<open>
  \<^verbatim>\<open>stop()\<close>. The reader task exists when the process does, \<^verbatim>\<open>start()\<close>
  creates one after the other: a session without process has nothing to stop, and a
  session with a process cancels its reader and terminates the process. The process
  handle stays in the session.
\<close>

definition MCPServer_stop :: "MCPServer \<Rightarrow> stop_env \<Rightarrow> MCPServer \<times> unit outcome" where
  "MCPServer_stop self E =
     (if process self = None then (self, Returns ())
      else
        (let cancelled = self\<lparr>reader_running := False\<rparr>
         in case terminate_error E of
              Some e \<Rightarrow> (cancelled, Raises e)
            | None \<Rightarrow>
                (if exits_in_time E then (cancelled, Returns ())
                 else (case kill_error E of
                         Some e \<Rightarrow> (cancelled, Raises e)
                       | None \<Rightarrow>
                           (cancelled, if exits_after_kill E then Returns () else Hangs)))))"

subsection \<open>get_tools\<close>

text \<open>
  The body of the loop of \<^verbatim>\<open>get_tools\<close>: \<^verbatim>\<open>tool.copy()\<close> exists on a dict
  and on a list only, and \<^verbatim>\<open>tool['name']\<close> raises on a list and on a dict
  without the key.
\<close>

definition prefix_tool :: "pylib \<Rightarrow> string \<Rightarrow> json \<Rightarrow> json outcome" where
  "prefix_tool L sname tool = (case tool of
      JObj d \<Rightarrow> (case map_of d ''name'' of
          None \<Rightarrow> Raises (KeyError ''name'')
        | Some n \<Rightarrow> Returns (JObj
            (AList.update ''original_name'' n
              (AList.update ''mcp_server'' (JStr sname)
                (AList.update ''name'' (JStr (sname @ ''__'' @ py_format L n)) d)))))
    | JArr xs \<Rightarrow> Raises TypeError
    | _ \<Rightarrow> Raises AttributeError)"

fun get_tools_loop :: "pylib \<Rightarrow> string \<Rightarrow> json list \<Rightarrow> json list \<Rightarrow> json list outcome" where
  "get_tools_loop L sname [] prefixed_tools = Returns prefixed_tools"
| "get_tools_loop L sname (tool # rest) prefixed_tools =
     (case prefix_tool L sname tool of
        Returns prefixed_tool \<Rightarrow> get_tools_loop L sname rest (prefixed_tools @ [prefixed_tool])
      | Raises e \<Rightarrow> Raises e
      | Hangs \<Rightarrow> Hangs)"

definition MCPServer_get_tools :: "pylib \<Rightarrow> MCPServer \<Rightarrow> json list outcome" where
  "MCPServer_get_tools L self = (case py_iter (tools self) of
      Returns ts \<Rightarrow> get_tools_loop L (name self) ts []
    | Raises e \<Rightarrow> Raises e
    | Hangs \<Rightarrow> Hangs)"

section \<open>MCPManager\<close>

text \<open>
  \<^verbatim>\<open>self.servers\<close>: a dict from server name to session, in insertion order.
\<close>

type_synonym registry = "(string \<times> MCPServer) list"

subsection \<open>get_all_tools\<close>

fun get_all_tools_loop :: "pylib \<Rightarrow> MCPServer list \<Rightarrow> json list \<Rightarrow> json list outcome" where
  "get_all_tools_loop L [] all_tools = Returns all_tools"
| "get_all_tools_loop L (server # rest) all_tools =
     (case MCPServer_get_tools L server of
        Returns ts \<Rightarrow> get_all_tools_loop L rest (all_tools @ ts)
      | Raises e \<Rightarrow> Raises e
      | Hangs \<Rightarrow> Hangs)"

definition MCPManager_get_all_tools :: "pylib \<Rightarrow> registry \<Rightarrow> json list outcome" where
  "MCPManager_get_all_tools L servers = get_all_tools_loop L (map snd servers) []"

subsection \<open>call_tool\<close>

definition MCPManager_call_tool ::
  "pylib \<Rightarrow> registry \<Rightarrow> string \<Rightarrow> json \<Rightarrow> request_env \<Rightarrow> registry \<times> json outcome" where
  "MCPManager_call_tool L servers tool_name arguments E =
     (if \<not> str_contains ''__'' tool_name
      then (servers, Returns (JObj [(''error'', JStr (''Invalid tool name format: '' @ tool_name)),
                                     (''isError'', JBool True)]))
      else (case str_split1 ''__'' tool_name of
              None \<Rightarrow> (servers, Raises ValueError)
            | Some (server_name, original_tool_name) \<Rightarrow>
                (case map_of servers server_name of
                   None \<Rightarrow>
                     (servers, Returns (JObj
                        [(''error'', JStr (''MCP server '' @ [CHR 0x27] @ server_name @ [CHR 0x27] @ '' not found'')),
                         (''isError'', JBool True)]))
                 | Some server \<Rightarrow>
                     (case MCPServer_call_tool L server original_tool_name arguments E of
                        (server', r) \<Rightarrow> (AList.update server_name server' servers, r)))))"

subsection \<open>start_all\<close>

text \<open>The body of the inner \<^verbatim>\<open>try\<close> of \<^verbatim>\<open>start_all\<close> up to the end of \<^verbatim>\<open>start()\<close>.\<close>

definition start_entry ::
  "pylib \<Rightarrow> string \<Rightarrow> json \<Rightarrow> start_env \<Rightarrow> MCPServer option \<times> unit outcome" where
  "start_entry L n server_config E =
     (case and_then (py_get server_config ''timeout'' (JFloat (Finite 120))) (\<lambda>t.
           and_then (py_getitem server_config ''command'') (\<lambda>c.
           and_then (py_get server_config ''args'' (JArr [])) (\<lambda>a.
           and_then (py_get server_config ''env'' (JObj [])) (\<lambda>e.
             Returns (MCPServer_init n c a e t))))) of
        Raises e \<Rightarrow> (None, Raises e)
      | Hangs \<Rightarrow> (None, Hangs)
      | Returns server \<Rightarrow>
          (case MCPServer_start L server E of (server', r) \<Rightarrow> (Some server', r)))"

text \<open>
  The loop of \<^verbatim>\<open>start_all\<close>: \<open>envs\<close> gives the environment each entry's
  \<^verbatim>\<open>start()\<close> meets. The handler of the inner \<^verbatim>\<open>try\<close> catches every exception
  and goes on with the next entry.
\<close>

fun start_all_loop ::
  "pylib \<Rightarrow> (string \<Rightarrow> start_env) \<Rightarrow> (string \<times> json) list \<Rightarrow> registry \<Rightarrow> registry \<times> unit outcome" where
  "start_all_loop L envs [] servers = (servers, Returns ())"
| "start_all_loop L envs ((n, server_config) # rest) servers =
     (case start_entry L n server_config (envs n) of
        (Some server, Returns u) \<Rightarrow> start_all_loop L envs rest (AList.update n server servers)
      | (None, Returns u) \<Rightarrow> start_all_loop L envs rest servers
      | (_, Raises e) \<Rightarrow> start_all_loop L envs rest servers
      | (_, Hangs) \<Rightarrow> (servers, Hangs))"

text \<open>
  \<^verbatim>\<open>start_all\<close>: \<open>config_file\<close> is the text of the configuration file,
  \<open>None\<close> when the file does not exist. The outer handler catches what reading
  the configuration raises, whatever \<^verbatim>\<open>json.load\<close> raises included.
\<close>

definition MCPManager_start_all ::
  "pylib \<Rightarrow> registry \<Rightarrow> string option \<Rightarrow> (string \<Rightarrow> start_env) \<Rightarrow> registry \<times> unit outcome" where
  "MCPManager_start_all L servers config_file envs =
     (case config_file of
        None \<Rightarrow> (servers, Returns ())
      | Some text \<Rightarrow>
          (case json_loads L text of
             Inl e \<Rightarrow> (servers, Returns ())
           | Inr config \<Rightarrow>
               (case py_get config ''mcpServers'' (JObj []) of
                  Returns (JObj entries) \<Rightarrow> start_all_loop L envs entries servers
                | _ \<Rightarrow> (servers, Returns ()))))"

subsection \<open>stop_all\<close>

text \<open>
  The loop of \<^verbatim>\<open>stop_all\<close> over the sessions of the registry, \<open>stopped\<close>
  being the entries it has passed: there is no handler, so the first \<^verbatim>\<open>stop()\<close>
  that raises ends \<^verbatim>\<open>stop_all\<close>, and the registry is cleared only when every
  session has stopped.
\<close>

fun stop_all_loop ::
  "(string \<Rightarrow> stop_env) \<Rightarrow> registry \<Rightarrow> registry \<Rightarrow> registry \<times> unit outcome" where
  "stop_all_loop envs [] stopped = (stopped, Returns ())"
| "stop_all_loop envs ((n, server) # rest) stopped =
     (case MCPServer_stop server (envs n) of
        (server', Returns u) \<Rightarrow> stop_all_loop envs rest (stopped @ [(n, server')])
      | (server', Raises e) \<Rightarrow> (stopped @ (n, server') # rest, Raises e)
      | (server', Hangs) \<Rightarrow> (stopped @ (n, server') # rest, Hangs))"

definition MCPManager_stop_all :: "(string \<Rightarrow> stop_env) \<Rightarrow> registry \<Rightarrow> registry \<times> unit outcome" where
  "MCPManager_stop_all envs servers =
     (case stop_all_loop envs servers [] of
        (servers', Returns u) \<Rightarrow> ([], Returns ())
      | (servers', Raises e) \<Rightarrow> (servers', Raises e)
      | (servers', Hangs) \<Rightarrow> (servers', Hangs))"

section \<open>Notions used in the statements\<close>

subsection \<open>Qualified names\<close>

text \<open>
  A server name is safe for the delimiter when \<open>__\<close> occurs neither in it nor
  across its last character and the delimiter that follows it: the first \<open>__\<close>
  of \<open>name__tool\<close> is then the inserted one.
\<close>

definition delim_safe :: "string \<Rightarrow> bool" where
  "delim_safe k = (\<not> str_contains ''__'' (k @ ''_''))"

text \<open>The \<open>name\<close> entry of a tool that \<^verbatim>\<open>get_tools\<close> returns: its qualified name.\<close>

definition qualified_name :: "json \<Rightarrow> json option" where
  "qualified_name t = (case t of JObj d \<Rightarrow> map_of d ''name'' | _ \<Rightarrow> None)"

text \<open>The name a tool of a catalog declares, as the f-string of \<^verbatim>\<open>get_tools\<close> renders it.\<close>

definition declared_name :: "pylib \<Rightarrow> json \<Rightarrow> string option" where
  "declared_name L t = (case t of JObj d \<Rightarrow> map_option (py_format L) (map_of d ''name'') | _ \<Rightarrow> None)"

definition original_names :: "pylib \<Rightarrow> MCPServer \<Rightarrow> string list" where
  "original_names L self = (case py_iter (tools self) of
      Returns ts \<Rightarrow> List.map_filter (declared_name L) ts
    | _ \<Rightarrow> [])"

subsection \<open>Catalog entries\<close>






subsection \<open>Routing\<close>

text \<open>
  The payloads \<^verbatim>\<open>MCPManager.call_tool\<close> returns for a name without delimiter and
  for a server that is not in the registry, and the result of handing the call to a
  session.
\<close>

definition invalid_tool_name :: "string \<Rightarrow> json" where
  "invalid_tool_name tool_name =
     JObj [(''error'', JStr (''Invalid tool name format: '' @ tool_name)), (''isError'', JBool True)]"

definition unknown_server :: "string \<Rightarrow> json" where
  "unknown_server server_name =
     JObj [(''error'', JStr (''MCP server '' @ [CHR 0x27] @ server_name @ [CHR 0x27] @ '' not found'')),
           (''isError'', JBool True)]"

definition delegate :: "pylib \<Rightarrow> registry \<Rightarrow> string \<Rightarrow> MCPServer \<Rightarrow> string \<Rightarrow> json \<Rightarrow> request_env \<Rightarrow> registry \<times> json outcome" where
  "delegate L servers server_name server original_name arguments E =
     (AList.update server_name (fst (MCPServer_call_tool L server original_name arguments E)) servers,
      snd (MCPServer_call_tool L server original_name arguments E))"

subsection \<open>Tool results\<close>

definition field_or :: "(string \<times> json) list \<Rightarrow> string \<Rightarrow> json \<Rightarrow> json" where
  "field_or d key dflt = (case map_of d key of Some v \<Rightarrow> v | None \<Rightarrow> dflt)"

definition is_text :: "(string \<times> json) list \<Rightarrow> bool" where
  "is_text d = (map_of d ''type'' = Some (JStr ''text''))"

definition is_image :: "(string \<times> json) list \<Rightarrow> bool" where
  "is_image d = (map_of d ''type'' = Some (JStr ''image''))"

text \<open>The texts of the text entries and the images of the image entries, in order.\<close>

fun text_entries :: "json list \<Rightarrow> string list" where
  "text_entries [] = []"
| "text_entries (JObj d # items) =
     (if is_text d
      then (case field_or d ''text'' (JStr []) of JStr t \<Rightarrow> t # text_entries items | _ \<Rightarrow> text_entries items)
      else text_entries items)"
| "text_entries (_ # items) = text_entries items"

fun image_entries :: "json list \<Rightarrow> json list" where
  "image_entries [] = []"
| "image_entries (JObj d # items) =
     (if is_image d
      then JObj [(''data'', field_or d ''data'' (JStr [])),
                 (''mimeType'', field_or d ''mimeType'' (JStr ''image/png''))] # image_entries items
      else image_entries items)"
| "image_entries (_ # items) = image_entries items"

fun join_lines :: "string list \<Rightarrow> string" where
  "join_lines [] = []"
| "join_lines [s] = s"
| "join_lines (s # t # ts) = s @ [CHR 0x0A] @ join_lines (t # ts)"

text \<open>
  A content entry as the wire protocol has it: an object, whose \<open>text\<close>, when it
  is a text entry, is a string.
\<close>

fun is_str :: "json \<Rightarrow> bool" where
  "is_str (JStr s) = True"
| "is_str _ = False"

fun wf_item :: "json \<Rightarrow> bool" where
  "wf_item (JObj d) = (is_text d \<longrightarrow> is_str (field_or d ''text'' (JStr [])))"
| "wf_item _ = False"

subsection \<open>Pending requests\<close>

text \<open>Every address in the pending table is an address of the store.\<close>

definition table_ok :: "MCPServer \<Rightarrow> bool" where
  "table_ok self = list_all (\<lambda>(k, a). a < length (futures self)) (pending_requests self)"

text \<open>
  A line of the child's output answers a request when the reader can take it and it
  parses to a message with that id.
\<close>

definition answers :: "pylib \<Rightarrow> string \<Rightarrow> string \<Rightarrow> bool" where
  "answers L rid line =
     (\<not> over_limit line \<and>
      (case bytes_decode L line of
         None \<Rightarrow> False
       | Some text \<Rightarrow>
           (case json_loads L (str_strip L text) of
              Inl e \<Rightarrow> False
            | Inr message \<Rightarrow> py_getitem message ''id'' = Returns (JStr rid))))"

text \<open>
  The slot of a request: its id is in the table at address \<open>a\<close>, the future
  there is waiting, and no other id shares the address.
\<close>

definition slot_waiting :: "string \<Rightarrow> nat \<Rightarrow> MCPServer \<Rightarrow> bool" where
  "slot_waiting rid a s \<longleftrightarrow>
     map_of (pending_requests s) rid = Some a \<and> a < length (futures s) \<and> futures s ! a = Waiting \<and>
     (\<forall>k b. k \<noteq> rid \<longrightarrow> map_of (pending_requests s) k = Some b \<longrightarrow> b \<noteq> a)"

text \<open>
  The slot of a request after its response: the id has left the table, the future
  holds a message, and no id of the table shares the address.
\<close>

definition slot_settled :: "string \<Rightarrow> nat \<Rightarrow> MCPServer \<Rightarrow> bool" where
  "slot_settled rid a s \<longleftrightarrow>
     rid \<notin> set (map fst (pending_requests s)) \<and> a < length (futures s) \<and>
     (\<exists>m. futures s ! a = Done m) \<and>
     (\<forall>k b. map_of (pending_requests s) k = Some b \<longrightarrow> b \<noteq> a)"

text \<open>What \<^verbatim>\<open>call_tool\<close> makes of the timeout error of \<^verbatim>\<open>_send_request\<close>.\<close>

definition timeout_result :: "pylib \<Rightarrow> MCPServer \<Rightarrow> json" where
  "timeout_result L self =
     JObj [(''error'', JStr (''Request timeout after '' @ py_format L (timeout self) @ ''s'')),
           (''isError'', JBool True)]"

subsection \<open>Starting the configured servers\<close>




subsection \<open>Sessions of the registry\<close>

text \<open>
  A session as \<^verbatim>\<open>start()\<close> leaves it, registered under its own name, and a
  registry of such sessions, every name once.
\<close>

definition session_ok :: "string \<Rightarrow> MCPServer \<Rightarrow> bool" where
  "session_ok k s \<longleftrightarrow> name s = k \<and> process s \<noteq> None \<and> table_ok s"

definition registry_ok :: "registry \<Rightarrow> bool" where
  "registry_ok servers \<longleftrightarrow>
     distinct (map fst servers) \<and> list_all (\<lambda>(k, s). session_ok k s) servers"


section \<open>An example world\<close>

text \<open>
  The lines a tool server writes and the requests it reads in the examples below, with
  the values they parse to.
\<close>

definition hello_text :: string where
  \<open>hello_text = ''{"jsonrpc": "2.0", "id": "r3", "result": {"content": [{"type": "text", "text": "hello"}]}}''\<close>

definition hello_response :: json where
  "hello_response =
     JObj [(''jsonrpc'', JStr ''2.0''), (''id'', JStr ''r3''),
           (''result'', JObj [(''content'', JArr [JObj [(''type'', JStr ''text''), (''text'', JStr ''hello'')]])])]"

definition no_message_text :: string where
  \<open>no_message_text = ''{"jsonrpc": "2.0", "id": "r3", "error": {"code": -32601}}''\<close>

definition no_message_response :: json where
  "no_message_response =
     JObj [(''jsonrpc'', JStr ''2.0''), (''id'', JStr ''r3''),
           (''error'', JObj [(''code'', JInt (- 32601))])]"

definition init_text :: string where
  \<open>init_text = ''{"jsonrpc": "2.0", "id": "r1", "result": {}}''\<close>

definition init_response :: json where
  "init_response = JObj [(''jsonrpc'', JStr ''2.0''), (''id'', JStr ''r1''), (''result'', JObj [])]"

definition tools_text :: string where
  \<open>tools_text = ''{"jsonrpc": "2.0", "id": "r2", "result": {"tools": [{"name": "read_file"}]}}''\<close>

definition tools_response :: json where
  "tools_response =
     JObj [(''jsonrpc'', JStr ''2.0''), (''id'', JStr ''r2''),
           (''result'', JObj [(''tools'', JArr [JObj [(''name'', JStr ''read_file'')]])])]"

text \<open>A line that is not JSON.\<close>

definition log_text :: string where
  "log_text = ''Server listening on stdio''"

definition call_request_text :: string where
  \<open>call_request_text = ''{"jsonrpc": "2.0", "id": "r3", "method": "tools/call", "params": {"name": "greet", "arguments": {}}}''\<close>

definition init_request_text :: string where
  \<open>init_request_text = ''{"jsonrpc": "2.0", "id": "r1", "method": "initialize", "params": {"protocolVersion": "2024-11-05", "capabilities": {"roots": {"listChanged": true}, "sampling": {}}, "clientInfo": {"name": "openai-realtime-mcp-client", "version": "1.0.0"}}}''\<close>

definition initialized_text :: string where
  \<open>initialized_text = ''{"jsonrpc": "2.0", "method": "notifications/initialized"}''\<close>

definition list_request_text :: string where
  \<open>list_request_text = ''{"jsonrpc": "2.0", "id": "r2", "method": "tools/list", "params": {}}''\<close>

definition config_text :: string where
  \<open>config_text = ''{"mcpServers": {"B": {"command": "no-such-command"}, "A": {"command": "node", "args": ["server.js"]}}}''\<close>

definition config_A :: json where
  "config_A = JObj [(''command'', JStr ''node''), (''args'', JArr [JStr ''server.js''])]"

definition config_B :: json where
  "config_B = JObj [(''command'', JStr ''no-such-command'')]"

definition config_value :: json where
  "config_value = JObj [(''mcpServers'', JObj [(''B'', config_B), (''A'', config_A)])]"

text \<open>
  A configuration whose first server has a timeout beyond the doubles, which
  \<^verbatim>\<open>json.load\<close> reads as the positive infinity.
\<close>

definition patient_config_text :: string where
  \<open>patient_config_text = ''{"mcpServers": {"B": {"command": "node", "timeout": 1e999}, "A": {"command": "node", "args": ["server.js"]}}}''\<close>

definition patient_B :: json where
  "patient_B = JObj [(''command'', JStr ''node''), (''timeout'', JFloat PosInf)]"

definition patient_config_value :: json where
  "patient_config_value = JObj [(''mcpServers'', JObj [(''B'', patient_B), (''A'', config_A)])]"

text \<open>
  The library on the arguments of the examples: there each function returns what
  Python returns (the lines are ASCII, and the byte \<open>0xFF\<close> occurs in no UTF-8
  text); elsewhere it returns a placeholder.
\<close>

definition example_lib :: pylib where
  "example_lib =
     \<lparr>py_str = (\<lambda>v. if v = JFloat (Finite 120) then ''120.0'' else ''None''),
      json_dumps = (\<lambda>v.
        if v = make_request ''r3'' ''tools/call'' (tools_call ''greet'' (JObj [])) then call_request_text
        else if v = make_request ''r1'' ''initialize'' initialize_params then init_request_text
        else if v = JObj [(''jsonrpc'', JStr ''2.0''), (''method'', JStr ''notifications/initialized'')]
          then initialized_text
        else if v = make_request ''r2'' ''tools/list'' (JObj []) then list_request_text
        else if v = JObj [] then ''{}''
        else ''null''),
      json_loads = (\<lambda>s.
        if s = hello_text then Inr hello_response
        else if s = no_message_text then Inr no_message_response
        else if s = init_text then Inr init_response
        else if s = tools_text then Inr tools_response
        else if s = config_text then Inr config_value
        else if s = patient_config_text then Inr patient_config_value
        else Inl JSONDecodeError),
      bytes_decode = (\<lambda>b. if CHR 0xFF \<in> set b then None else Some b),
      str_strip = (\<lambda>s. if s \<noteq> [] \<and> last s = CHR 0x0A then butlast s else s)\<rparr>"

text \<open>A session whose process runs, with the default timeout and nothing in flight.\<close>

definition running_session :: MCPServer where
  "running_session =
     (MCPServer_init ''fs'' (JStr ''node'') (JArr [JStr ''server.js'']) (JObj []) (JFloat (Finite 120)))
       \<lparr>process := Some \<lparr>stdin = []\<rparr>, reader_running := True\<rparr>"


text \<open>
  The environment of a request with id \<open>r3\<close> whose write completes and whose
  reader takes the given lines up to the deadline and none after it.
\<close>

definition request_r3 :: "string list \<Rightarrow> request_env" where
  "request_r3 lines = \<lparr>request_id = ''r3'', drain = Returns (), incoming = lines, late = []\<rparr>"

definition tool_named :: "string \<Rightarrow> json" where
  "tool_named n = JObj [(''name'', JStr n)]"

definition server_with_tools :: "string \<Rightarrow> json list \<Rightarrow> MCPServer" where
  "server_with_tools k ts =
     (MCPServer_init k (JStr ''node'') (JArr []) (JObj []) (JFloat (Finite 120)))\<lparr>tools := JArr ts\<rparr>"




text \<open>The session of \<open>A\<close> after its handshake.\<close>

definition session_A :: MCPServer where
  "session_A =
     \<lparr>name = ''A'', command = JStr ''node'', args = JArr [JStr ''server.js''], env = JObj [],
      timeout = JFloat (Finite 120),
      process = Some \<lparr>stdin = [init_request_text @ [CHR 0x0A], initialized_text @ [CHR 0x0A],
                                list_request_text @ [CHR 0x0A]]\<rparr>,
      message_id_counter = 2, pending_requests = [],
      futures = [Done init_response, Done tools_response],
      tools = JArr [JObj [(''name'', JStr ''read_file'')]],
      reader_running = True\<rparr>"

section \<open>Strings and the delimiter\<close>

lemma prefix_delim: "prefix ''__'' (c # cs) \<longleftrightarrow> c = CHR ''_'' \<and> (\<exists>r. cs = CHR ''_'' # r)"
  by (cases cs) auto

lemma str_contains_iff: "str_contains sub s \<longleftrightarrow> (\<exists>a b. s = a @ sub @ b)"
proof (induction s)
  case Nil
  then show ?case by auto
next
  case (Cons c cs)
  show ?case
  proof
    assume "str_contains sub (c # cs)"
    then consider "prefix sub (c # cs)" | "str_contains sub cs" by auto
    then show "\<exists>a b. c # cs = a @ sub @ b"
    proof cases
      case 1
      then obtain b where "c # cs = sub @ b" by (auto simp: prefix_def)
      then have "c # cs = [] @ sub @ b" by simp
      then show ?thesis by blast
    next
      case 2
      with Cons.IH obtain a b where "cs = a @ sub @ b" by blast
      then have "c # cs = (c # a) @ sub @ b" by simp
      then show ?thesis by blast
    qed
  next
    assume "\<exists>a b. c # cs = a @ sub @ b"
    then obtain a b where ab: "c # cs = a @ sub @ b" by blast
    show "str_contains sub (c # cs)"
    proof (cases a)
      case Nil
      with ab have "prefix sub (c # cs)" by (simp add: prefix_def)
      then show ?thesis by simp
    next
      case (Cons x a')
      with ab have "cs = a' @ sub @ b" by simp
      with Cons.IH have "str_contains sub cs" by blast
      then show ?thesis by simp
    qed
  qed
qed

lemma split1_qualified:
  "delim_safe k \<Longrightarrow> str_split1 ''__'' (k @ ''__'' @ n) = Some (k, n)"
proof (induction k)
  case Nil
  then show ?case by simp
next
  case (Cons c k)
  from Cons.prems have np: "\<not> prefix ''__'' (c # k @ ''_'')" and safe: "delim_safe k"
    by (simp_all add: delim_safe_def)
  have "\<not> prefix ''__'' (c # k @ ''__'' @ n)"
    using np by (cases k) (auto simp: prefix_delim)
  with Cons.IH [OF safe] show ?case by simp
qed

lemma qualified_inj:
  assumes "delim_safe k1" "delim_safe k2" "k1 @ ''__'' @ n1 = k2 @ ''__'' @ n2"
  shows "k1 = k2 \<and> n1 = n2"
proof -
  have "Some (k1, n1) = str_split1 ''__'' (k1 @ ''__'' @ n1)"
    by (rule split1_qualified [OF assms(1), symmetric])
  also have "\<dots> = str_split1 ''__'' (k2 @ ''__'' @ n2)"
    by (rule arg_cong [OF assms(3)])
  also have "\<dots> = Some (k2, n2)"
    by (rule split1_qualified [OF assms(2)])
  finally show ?thesis by simp
qed

text \<open>
  Every name that contains the delimiter splits at its first occurrence, after a safe
  segment: the three ways of \<^verbatim>\<open>MCPManager.call_tool\<close> cover all names.
\<close>

lemma split1_sound: "str_split1 sep s = Some (a, b) \<Longrightarrow> s = a @ sep @ b"
proof (induction s arbitrary: a)
  case Nil
  then show ?case by (auto split: if_splits)
next
  case (Cons c cs)
  show ?case
  proof (cases "prefix sep (c # cs)")
    case True
    with Cons.prems show ?thesis by (auto simp: prefix_def)
  next
    case False
    with Cons.prems obtain a' where "str_split1 sep cs = Some (a', b)" "a = c # a'"
      by auto
    with Cons.IH show ?thesis by auto
  qed
qed

lemma split1_first: "str_split1 ''__'' s = Some (a, b) \<Longrightarrow> delim_safe a"
proof (induction s arbitrary: a)
  case Nil
  then show ?case by simp
next
  case (Cons c cs)
  from Cons.prems have unfolded:
    "(if prefix ''__'' (c # cs) then Some ([], drop (length ''__'') (c # cs))
      else map_option (\<lambda>(a, b). (c # a, b)) (str_split1 ''__'' cs)) = Some (a, b)"
    by (simp only: str_split1.simps)
  show ?case
  proof (cases "prefix ''__'' (c # cs)")
    case True
    with unfolded have "a = []" by (simp only: if_True option.inject prod.inject)
    then show ?thesis by (simp add: delim_safe_def)
  next
    case False
    with unfolded have "map_option (\<lambda>(a, b). (c # a, b)) (str_split1 ''__'' cs) = Some (a, b)"
      by (simp only: if_False)
    then obtain a' where a': "str_split1 ''__'' cs = Some (a', b)" and a: "a = c # a'"
      by auto
    from Cons.IH [OF a'] have safe: "delim_safe a'" .
    from split1_sound [OF a'] have cs: "cs = a' @ ''__'' @ b" .
    have "\<not> prefix ''__'' (c # a' @ ''_'')"
      using False cs by (cases a') (auto simp: prefix_delim)
    with safe a show ?thesis by (simp add: delim_safe_def)
  qed
qed

lemma split1_contains: "str_contains sep s \<longleftrightarrow> str_split1 sep s \<noteq> None"
  by (induction s) auto

lemma first_delimiter_exists:
  assumes "str_contains ''__'' s"
  shows "\<exists>sn rest. s = sn @ ''__'' @ rest \<and> delim_safe sn"
proof -
  from assms obtain a b where ab: "str_split1 ''__'' s = Some (a, b)"
    by (auto simp: split1_contains)
  from split1_sound [OF ab] split1_first [OF ab] show ?thesis by blast
qed

section \<open>The library of the examples\<close>

lemma example_py_str: "py_str example_lib v = (if v = JFloat (Finite 120) then ''120.0'' else ''None'')"
  by (simp add: example_lib_def)

lemma example_dumps_call:
  "json_dumps example_lib (make_request ''r3'' ''tools/call'' (tools_call ''greet'' (JObj []))) = call_request_text"
  by (simp add: example_lib_def)

lemma example_decode: "bytes_decode example_lib b = (if CHR 0xFF \<in> set b then None else Some b)"
  by (simp add: example_lib_def)

lemma example_strip: "str_strip example_lib (s @ [CHR 0x0A]) = s"
  by (simp add: example_lib_def)

lemma example_loads_hello: "json_loads example_lib hello_text = Inr hello_response"
  by (simp add: example_lib_def)

lemma example_loads_no_message: "json_loads example_lib no_message_text = Inr no_message_response"
  by (simp add: example_lib_def hello_text_def no_message_text_def)

lemma example_loads_log: "json_loads example_lib log_text = Inl JSONDecodeError"
  by (simp add: example_lib_def log_text_def hello_text_def no_message_text_def init_text_def
      tools_text_def config_text_def patient_config_text_def)

lemma short_line: "length line \<le> 1000 \<Longrightarrow> over_limit line = False"
  by (auto simp: over_limit_def stream_limit_def)

lemma example_lines_short:
  "over_limit (hello_text @ [CHR 0x0A]) = False"
  "over_limit (no_message_text @ [CHR 0x0A]) = False"
  "over_limit (init_text @ [CHR 0x0A]) = False"
  "over_limit (tools_text @ [CHR 0x0A]) = False"
  "over_limit (log_text @ [CHR 0x0A]) = False"
  "over_limit [CHR 0xFF, CHR 0x0A] = False"
  by (rule short_line, simp add: hello_text_def no_message_text_def init_text_def tools_text_def
      log_text_def)+

lemma log_text_ascii: "CHR 0xFF \<notin> set log_text"
  by (simp add: log_text_def)

lemma hello_text_ascii: "CHR 0xFF \<notin> set hello_text"
  by (simp add: hello_text_def)

lemma no_message_text_ascii: "CHR 0xFF \<notin> set no_message_text"
  by (simp add: no_message_text_def)

section \<open>The catalog\<close>

lemma prefix_tool_name:
  "prefix_tool L k t = Returns t' \<Longrightarrow>
   \<exists>n. declared_name L t = Some n \<and> qualified_name t' = Some (JStr (k @ ''__'' @ n))"
proof (cases t)
  case (JObj d)
  assume r: "prefix_tool L k t = Returns t'"
  show ?thesis
  proof (cases "map_of d ''name''")
    case None
    with r JObj show ?thesis by (simp add: prefix_tool_def)
  next
    case (Some n)
    with r JObj have "t' = JObj (AList.update ''original_name'' n
              (AList.update ''mcp_server'' (JStr k)
                (AList.update ''name'' (JStr (k @ ''__'' @ py_format L n)) d)))"
      by (simp add: prefix_tool_def)
    then have "qualified_name t' = Some (JStr (k @ ''__'' @ py_format L n))"
      by (simp add: qualified_name_def update_conv')
    moreover have "declared_name L t = Some (py_format L n)"
      using JObj Some by (simp add: declared_name_def)
    ultimately show ?thesis by blast
  qed
qed (simp_all add: prefix_tool_def)

lemma get_tools_loop_names:
  "get_tools_loop L k ts acc = Returns out \<Longrightarrow>
   map qualified_name out =
     map qualified_name acc @ map (\<lambda>n. Some (JStr (k @ ''__'' @ n))) (List.map_filter (declared_name L) ts)"
proof (induction ts arbitrary: acc)
  case Nil then show ?case by simp
next
  case (Cons t ts)
  then obtain t' where t': "prefix_tool L k t = Returns t'"
    and rest: "get_tools_loop L k ts (acc @ [t']) = Returns out"
    by (auto split: outcome.splits)
  from prefix_tool_name [OF t'] obtain n where "declared_name L t = Some n"
    "qualified_name t' = Some (JStr (k @ ''__'' @ n))" by blast
  with Cons.IH [OF rest] show ?case by simp
qed

lemma get_tools_names:
  "MCPServer_get_tools L self = Returns out \<Longrightarrow>
   map qualified_name out = map (\<lambda>n. Some (JStr (name self @ ''__'' @ n))) (original_names L self)"
proof -
  assume r: "MCPServer_get_tools L self = Returns out"
  then obtain ts where ts: "py_iter (tools self) = Returns ts"
    and loop: "get_tools_loop L (name self) ts [] = Returns out"
    by (auto simp: MCPServer_get_tools_def split: outcome.splits)
  from get_tools_loop_names [OF loop] ts show ?thesis
    by (simp add: original_names_def)
qed

lemma get_all_tools_loop_names:
  "get_all_tools_loop L ss acc = Returns out \<Longrightarrow>
   map qualified_name out = map qualified_name acc @
     concat (map (\<lambda>s. map (\<lambda>n. Some (JStr (name s @ ''__'' @ n))) (original_names L s)) ss)"
proof (induction ss arbitrary: acc)
  case Nil then show ?case by simp
next
  case (Cons s ss)
  then obtain ts where ts: "MCPServer_get_tools L s = Returns ts"
    and rest: "get_all_tools_loop L ss (acc @ ts) = Returns out"
    by (auto split: outcome.splits)
  show ?case using Cons.IH [OF rest] get_tools_names [OF ts] by simp
qed

lemma names_distinct_aux:
  assumes "distinct (map name ss)"
    and "\<forall>s \<in> set ss. delim_safe (name s) \<and> distinct (original_names L s)"
  shows "distinct (concat (map (\<lambda>s. map (\<lambda>n. Some (JStr (name s @ ''__'' @ n))) (original_names L s)) ss))"
  using assms
proof (induction ss)
  case Nil
  then show ?case by simp
next
  case (Cons s ss)
  let ?q = "\<lambda>s. map (\<lambda>n. Some (JStr (name s @ ''__'' @ n))) (original_names L s)"
  have own: "distinct (?q s)"
    using Cons.prems(2) by (simp add: distinct_map inj_on_def)
  have rest: "distinct (concat (map ?q ss))"
    using Cons.IH Cons.prems by simp
  have disj: "set (?q s) \<inter> set (concat (map ?q ss)) = {}"
  proof (rule ccontr)
    assume "set (?q s) \<inter> set (concat (map ?q ss)) \<noteq> {}"
    then obtain n s' n' where s': "s' \<in> set ss"
      and eq: "name s @ ''__'' @ n = name s' @ ''__'' @ n'"
      by auto
    have "delim_safe (name s)" "delim_safe (name s')"
      using Cons.prems(2) s' by simp_all
    from qualified_inj [OF this eq] have "name s = name s'" by simp
    moreover have "name s \<notin> name ` set ss" using Cons.prems(1) by simp
    ultimately show False using s' by blast
  qed
  show ?case using own rest disj by simp
qed


lemma example_catalog:
  "MCPManager_get_all_tools example_lib
     [(''fs'', server_with_tools ''fs'' [tool_named ''read'', tool_named ''write'']),
      (''git'', server_with_tools ''git'' [tool_named ''read''])] =
   Returns
     [JObj [(''name'', JStr ''fs__read''), (''mcp_server'', JStr ''fs''), (''original_name'', JStr ''read'')],
      JObj [(''name'', JStr ''fs__write''), (''mcp_server'', JStr ''fs''), (''original_name'', JStr ''write'')],
      JObj [(''name'', JStr ''git__read''), (''mcp_server'', JStr ''git''), (''original_name'', JStr ''read'')]]"
  by (simp add: MCPManager_get_all_tools_def MCPServer_get_tools_def py_iter_def prefix_tool_def
      server_with_tools_def MCPServer_init_def tool_named_def py_format_def py_truthy_def)

text \<open>
  C1, as amended. The qualified names of the tools that \<^verbatim>\<open>get_all_tools\<close> returns
  are pairwise distinct when the registry is as \<^verbatim>\<open>start_all\<close> builds it (every
  session under its own name, every name once), no server name contains \<open>__\<close> or
  ends in \<open>_\<close>, and no catalog declares a name twice. Tools that two such servers
  declare under the same original name then get different qualified names.
\<close>

theorem qualified_names_distinct:
  assumes keys: "distinct (map fst servers)"
    and wf: "\<forall>(k, s) \<in> set servers. name s = k \<and> delim_safe k \<and> distinct (original_names L s)"
    and res: "MCPManager_get_all_tools L servers = Returns all_tools"
  shows "distinct (map qualified_name all_tools)"
proof -
  have names: "map name (map snd servers) = map fst servers"
    using wf by (induction servers) auto
  have d: "distinct (map name (map snd servers))"
    unfolding names by (rule keys)
  have s: "\<forall>s \<in> set (map snd servers). delim_safe (name s) \<and> distinct (original_names L s)"
    using wf by auto
  from res have "get_all_tools_loop L (map snd servers) [] = Returns all_tools"
    by (simp add: MCPManager_get_all_tools_def)
  from get_all_tools_loop_names [OF this] names_distinct_aux [OF d s]
  show ?thesis by simp
qed

theorem qualified_names_distinct_witness:
  "distinct (map qualified_name
     [JObj [(''name'', JStr ''fs__read''), (''mcp_server'', JStr ''fs''), (''original_name'', JStr ''read'')],
      JObj [(''name'', JStr ''fs__write''), (''mcp_server'', JStr ''fs''), (''original_name'', JStr ''write'')],
      JObj [(''name'', JStr ''git__read''), (''mcp_server'', JStr ''git''), (''original_name'', JStr ''read'')]])"
proof -
  let ?servers = "[(''fs'', server_with_tools ''fs'' [tool_named ''read'', tool_named ''write'']),
      (''git'', server_with_tools ''git'' [tool_named ''read''])]"
  have keys: "distinct (map fst ?servers)" by simp
  have wf: "\<forall>(k, s) \<in> set ?servers.
      name s = k \<and> delim_safe k \<and> distinct (original_names example_lib s)"
    by (simp add: server_with_tools_def MCPServer_init_def delim_safe_def original_names_def
        py_iter_def declared_name_def tool_named_def py_format_def)
  show ?thesis by (rule qualified_names_distinct [OF keys wf example_catalog])
qed

text \<open>
  C1 as stated fails: the servers \<open>a\<close> and \<open>a__b\<close>, with the tools \<open>b__c\<close>
  and \<open>c\<close>, give two entries with the qualified name \<open>a__b__c\<close>.
\<close>

theorem qualified_names_collide:
  "MCPManager_get_all_tools example_lib
     [(''a'', server_with_tools ''a'' [tool_named ''b__c'']),
      (''a__b'', server_with_tools ''a__b'' [tool_named ''c''])] =
   Returns
     [JObj [(''name'', JStr ''a__b__c''), (''mcp_server'', JStr ''a''), (''original_name'', JStr ''b__c'')],
      JObj [(''name'', JStr ''a__b__c''), (''mcp_server'', JStr ''a__b''), (''original_name'', JStr ''c'')]] \<and>
   qualified_name
     (JObj [(''name'', JStr ''a__b__c''), (''mcp_server'', JStr ''a''), (''original_name'', JStr ''b__c'')]) =
   qualified_name
     (JObj [(''name'', JStr ''a__b__c''), (''mcp_server'', JStr ''a__b''), (''original_name'', JStr ''c'')])"
  by (simp add: MCPManager_get_all_tools_def MCPServer_get_tools_def py_iter_def prefix_tool_def
      server_with_tools_def MCPServer_init_def tool_named_def py_format_def py_truthy_def
      qualified_name_def)

section \<open>Routing by qualified name\<close>

lemma call_tool_no_delimiter:
  "\<not> str_contains ''__'' tool_name \<Longrightarrow>
   MCPManager_call_tool L servers tool_name arguments E = (servers, Returns (invalid_tool_name tool_name))"
  by (simp add: MCPManager_call_tool_def invalid_tool_name_def)

lemma contains_qualified: "str_contains ''__'' (sn @ ''__'' @ rest)"
  unfolding str_contains_iff by blast

lemma call_tool_split:
  assumes "delim_safe sn"
  shows "MCPManager_call_tool L servers (sn @ ''__'' @ rest) arguments E =
     (case map_of servers sn of
        None \<Rightarrow> (servers, Returns (unknown_server sn))
      | Some server \<Rightarrow> delegate L servers sn server rest arguments E)"
  unfolding MCPManager_call_tool_def
  by (simp only: contains_qualified split1_qualified [OF assms] not_True_eq_False if_False
        option.case prod.case unknown_server_def delegate_def split_beta fst_conv snd_conv)

section \<open>Tool results\<close>

lemma is_str_iff: "is_str v \<longleftrightarrow> (\<exists>t. v = JStr t)"
  by (cases v) simp_all

lemma py_get_obj: "py_get (JObj d) key dflt = Returns (field_or d key dflt)"
  by (simp add: py_get_def field_or_def split: option.splits)

lemma and_then_Returns: "and_then (Returns x) f = f x"
  by (simp add: and_then_def)

lemma field_or_type_text: "field_or d ''type'' JNull = JStr ''text'' \<longleftrightarrow> is_text d"
  by (auto simp: field_or_def is_text_def split: option.splits)

lemma field_or_type_image: "field_or d ''type'' JNull = JStr ''image'' \<longleftrightarrow> is_image d"
  by (auto simp: field_or_def is_image_def split: option.splits)

lemma text_not_image: "is_text d \<Longrightarrow> \<not> is_image d"
  by (simp add: is_text_def is_image_def)

lemma content_loop_wf:
  "list_all wf_item items \<Longrightarrow>
   content_loop items text_parts images =
     Returns (text_parts @ map JStr (text_entries items), images @ image_entries items)"
proof (induction items arbitrary: text_parts images)
  case Nil
  then show ?case by simp
next
  case (Cons item items)
  from Cons.prems obtain d where d: "item = JObj d" and rest: "list_all wf_item items"
    and istx: "is_text d \<longrightarrow> (\<exists>t. field_or d ''text'' (JStr []) = JStr t)"
    by (cases item) (auto simp: is_str_iff)
  show ?case
  proof (cases "is_text d")
    case True
    with istx obtain t where t: "field_or d ''text'' (JStr []) = JStr t" by blast
    show ?thesis
      using True t text_not_image [OF True]
      by (simp add: d py_get_obj and_then_Returns field_or_type_text Cons.IH [OF rest])
  next
    case False
    show ?thesis
      using False
      by (simp add: d py_get_obj and_then_Returns field_or_type_text field_or_type_image
          Cons.IH [OF rest])
  qed
qed

lemma str_join_strings: "str_join [CHR 0x0A] (map JStr ss) = Returns (join_lines ss)"
  by (induction ss rule: join_lines.induct) simp_all

lemma py_in_obj: "py_in key (JObj d) = Returns (key \<in> set (map fst d))"
  by (simp add: py_in_def)

lemma py_getitem_obj:
  "py_getitem (JObj d) key = (case map_of d key of Some x \<Rightarrow> Returns x | None \<Rightarrow> Raises (KeyError key))"
  by (simp add: py_getitem_def)

lemma call_tool_result_success:
  assumes ok: "''error'' \<notin> set (map fst r)"
    and res: "field_or r ''result'' (JObj []) = JObj res"
    and con: "field_or res ''content'' (JArr []) = JArr items"
    and wf: "list_all wf_item items"
  shows "call_tool_result L (JObj r) =
     Returns (JObj ([(''isError'', field_or res ''isError'' (JBool False)),
                     (''result'', JStr (if text_entries items = [] then json_dumps L (JObj res)
                                        else join_lines (text_entries items)))] @
                    (if image_entries items = [] then [] else [(''images'', JArr (image_entries items))])))"
  using ok
  by (simp add: call_tool_result_def py_in_obj py_get_obj and_then_Returns res con py_iter_def
      content_loop_wf [OF wf] str_join_strings)

lemma call_tool_result_error:
  assumes "map_of r ''error'' = Some (JObj e)"
  shows "call_tool_result L (JObj r) =
     (case map_of e ''message'' of
        Some m \<Rightarrow> Returns (JObj [(''error'', m), (''isError'', JBool True)])
      | None \<Rightarrow> Raises (KeyError ''message''))"
proof -
  from assms have "(''error'', JObj e) \<in> set r" by (rule map_of_SomeD)
  then have "''error'' \<in> fst ` set r" by force
  then show ?thesis
    using assms
    by (simp add: call_tool_result_def py_in_obj py_getitem_obj and_then_def split: option.splits)
qed

lemma call_tool_result_timeout:
  "call_tool_result L (timeout_error L self) = Returns (timeout_result L self)"
  by (simp add: call_tool_result_def timeout_error_def timeout_result_def py_in_def
      py_getitem_def and_then_def)

section \<open>The reader and the pending table\<close>

lemma pending_id_Some:
  "pending_id s m = Returns (Some k) \<Longrightarrow> py_getitem m ''id'' = Returns (JStr k)"
  by (auto simp: pending_id_def split: outcome.splits bool.splits json.splits if_splits)

text \<open>
  What holds of the state before the loop, and is kept when the reader ends and when
  it handles a message that one of the lines parses to, holds after the loop.
\<close>

lemma read_loop_induct:
  assumes init: "P s"
    and halt: "\<And>s. P s \<Longrightarrow> P (s\<lparr>reader_running := False\<rparr>)"
    and step: "\<And>s line decoded m. P s \<Longrightarrow> line \<in> set lines \<Longrightarrow> \<not> over_limit line \<Longrightarrow>
                 bytes_decode L line = Some decoded \<Longrightarrow>
                 json_loads L (str_strip L decoded) = Inr m \<Longrightarrow> P (fst (handle_message s m))"
  shows "P (read_responses_loop L lines s)"
  using init step
proof (induction lines arbitrary: s)
  case Nil
  then show ?case by simp
next
  case (Cons line lines)
  have rest: "P (read_responses_loop L lines s')" if "P s'" for s'
  proof (rule Cons.IH [OF that])
    fix s1 line1 decoded m
    assume "P s1" "line1 \<in> set lines" "\<not> over_limit line1" "bytes_decode L line1 = Some decoded"
      "json_loads L (str_strip L decoded) = Inr m"
    then show "P (fst (handle_message s1 m))"
      using Cons.prems(2) [of s1 line1 decoded m] by simp
  qed
  show ?case
  proof (cases "over_limit line \<or> line = []")
    case True
    with halt [OF Cons.prems(1)] show ?thesis by auto
  next
    case False
    then have short: "\<not> over_limit line" by simp
    show ?thesis
    proof (cases "bytes_decode L line")
      case None
      with False halt [OF Cons.prems(1)] show ?thesis by simp
    next
      case (Some decoded)
      show ?thesis
      proof (cases "json_loads L (str_strip L decoded)")
        case (Inl e)
        with False Some halt [OF Cons.prems(1)] rest [OF Cons.prems(1)] show ?thesis by simp
      next
        case (Inr m)
        obtain s' err where hm: "handle_message s m = (s', err)" by (cases "handle_message s m")
        from Cons.prems(2) [OF Cons.prems(1) _ short Some Inr] hm have s': "P s'" by simp
        show ?thesis
          using False Some Inr hm halt [OF s'] rest [OF s'] by (cases err) simp_all
      qed
    qed
  qed
qed

lemma read_induct:
  assumes "P s"
    and "\<And>s. P s \<Longrightarrow> P (s\<lparr>reader_running := False\<rparr>)"
    and "\<And>s line decoded m. P s \<Longrightarrow> line \<in> set lines \<Longrightarrow> \<not> over_limit line \<Longrightarrow>
           bytes_decode L line = Some decoded \<Longrightarrow>
           json_loads L (str_strip L decoded) = Inr m \<Longrightarrow> P (fst (handle_message s m))"
  shows "P (read_responses L lines s)"
proof (cases "reader_running s \<and> process s \<noteq> None")
  case True
  have "P (read_responses_loop L lines s)"
    by (rule read_loop_induct [of P, OF assms(1) assms(2) assms(3)])
  with True show ?thesis by (simp add: read_responses_def)
next
  case False
  with assms(1) show ?thesis by (auto simp: read_responses_def)
qed

lemma not_answers:
  assumes "list_all (\<lambda>line. \<not> answers L rid line) lines" and "line \<in> set lines"
    and "\<not> over_limit line"
    and "bytes_decode L line = Some decoded" and "json_loads L (str_strip L decoded) = Inr m"
  shows "py_getitem m ''id'' \<noteq> Returns (JStr rid)"
proof -
  from assms(1,2) have "\<not> answers L rid line" by (simp add: list_all_iff)
  with assms(3,4,5) show ?thesis by (simp add: answers_def)
qed

lemma slot_waiting_flag: "slot_waiting rid a (s\<lparr>reader_running := b\<rparr>) = slot_waiting rid a s"
  by (simp add: slot_waiting_def)

lemma handle_message_keeps_slot:
  assumes I: "slot_waiting rid a s"
    and other: "py_getitem m ''id'' \<noteq> Returns (JStr rid)"
  shows "slot_waiting rid a (fst (handle_message s m))"
proof (cases "pending_id s m")
  case (Returns r)
  show ?thesis
  proof (cases r)
    case None
    with Returns show ?thesis
      using I by (auto simp: handle_message_def split: outcome.splits bool.splits)
  next
    case (Some k)
    with Returns have k: "pending_id s m = Returns (Some k)" by simp
    from pending_id_Some [OF k] other have ne: "k \<noteq> rid" by auto
    show ?thesis
    proof (cases "map_of (pending_requests s) k")
      case None
      with k I show ?thesis by (simp add: handle_message_def)
    next
      case (Some b)
      with I ne have ba: "b \<noteq> a" by (auto simp: slot_waiting_def)
      have del: "slot_waiting rid a (s\<lparr>pending_requests := AList.delete k (pending_requests s)\<rparr>)"
        using I ne by (auto simp: slot_waiting_def delete_conv')
      show ?thesis
      proof (cases "set_result (futures s) b m")
        case None
        with k Some del show ?thesis by (simp add: handle_message_def)
      next
        case (Some fs)
        then have fs: "fs = (futures s)[b := Done m]"
          by (auto simp: set_result_def split: if_splits)
        have "slot_waiting rid a (s\<lparr>pending_requests := AList.delete k (pending_requests s), futures := fs\<rparr>)"
          using del ba by (simp add: slot_waiting_def fs)
        with k \<open>map_of (pending_requests s) k = Some b\<close> Some show ?thesis
          by (simp add: handle_message_def)
      qed
    qed
  qed
next
  case (Raises e)
  with I show ?thesis by (simp add: handle_message_def)
next
  case Hangs
  with I show ?thesis by (simp add: handle_message_def)
qed

lemma read_keeps_slot:
  assumes "slot_waiting rid a s" and "list_all (\<lambda>line. \<not> answers L rid line) lines"
  shows "slot_waiting rid a (read_responses L lines s)"
proof (rule read_induct [of "slot_waiting rid a", OF assms(1)])
  fix s1 assume "slot_waiting rid a s1"
  then show "slot_waiting rid a (s1\<lparr>reader_running := False\<rparr>)" by (simp add: slot_waiting_flag)
next
  fix s1 line decoded m
  assume s1: "slot_waiting rid a s1" and "line \<in> set lines" "\<not> over_limit line"
    "bytes_decode L line = Some decoded" "json_loads L (str_strip L decoded) = Inr m"
  from not_answers [OF assms(2) this(2,3,4,5)]
  show "slot_waiting rid a (fst (handle_message s1 m))" by (rule handle_message_keeps_slot [OF s1])
qed



text \<open>A cancelled future stays cancelled: the reader sets a result on a waiting one only.\<close>

lemma handle_message_keeps_cancelled:
  assumes "a < length (futures s) \<and> futures s ! a = Cancelled"
  shows "a < length (futures (fst (handle_message s m))) \<and>
         futures (fst (handle_message s m)) ! a = Cancelled"
proof -
  have "a < length fs \<and> fs ! a = Cancelled"
    if "set_result (futures s) b m = Some fs" for b fs
  proof -
    from that have fs: "fs = (futures s)[b := Done m]" and w: "futures s ! b = Waiting"
      by (auto simp: set_result_def split: if_splits)
    from w assms have "b \<noteq> a" by auto
    with fs assms show ?thesis by simp
  qed
  with assms show ?thesis
    by (auto simp: handle_message_def Let_def split: outcome.splits option.splits bool.splits)
qed

lemma read_keeps_cancelled:
  assumes "a < length (futures s) \<and> futures s ! a = Cancelled"
  shows "a < length (futures (read_responses L lines s)) \<and>
         futures (read_responses L lines s) ! a = Cancelled"
  by (rule read_induct [of "\<lambda>s. a < length (futures s) \<and> futures s ! a = Cancelled", OF assms])
    (simp_all add: handle_message_keeps_cancelled)

lemma registered_slot_waiting:
  assumes "table_ok self"
  shows "slot_waiting rid (length (futures self))
           (stdin_write (register_request self rid) data)"
proof -
  have "\<And>k b. map_of (pending_requests self) k = Some b \<Longrightarrow> b < length (futures self)"
  proof -
    fix k b assume "map_of (pending_requests self) k = Some b"
    then have "(k, b) \<in> set (pending_requests self)" by (rule map_of_SomeD)
    with assms show "b < length (futures self)"
      by (auto simp: table_ok_def list_all_iff)
  qed
  then show ?thesis
    by (auto simp: slot_waiting_def stdin_write_def register_request_def update_conv' nth_append)
qed


text \<open>Every operation of a session keeps the addresses of the table inside the store.\<close>

lemma table_ok_init: "table_ok (MCPServer_init n c a e t)"
  by (simp add: table_ok_def MCPServer_init_def)

lemma table_ok_flag: "table_ok (s\<lparr>reader_running := b\<rparr>) = table_ok s"
  by (simp add: table_ok_def)

lemma set_update_subset: "set (AList.update k v al) \<subseteq> insert (k, v) (set al)"
  by (induction al) auto

lemma delete_no_entry: "(k, b) \<notin> set (AList.delete k al)"
  by (auto simp: AList.delete_eq)

lemma set_delete_subset: "set (AList.delete k al) \<subseteq> set al"
  by (auto simp: AList.delete_eq)

lemma table_ok_register: "table_ok s \<Longrightarrow> table_ok (stdin_write (register_request s rid) data)"
proof -
  assume ok: "table_ok s"
  have "\<And>k b. (k, b) \<in> set (AList.update rid (length (futures s)) (pending_requests s)) \<Longrightarrow>
          b < Suc (length (futures s))"
  proof -
    fix k b
    assume "(k, b) \<in> set (AList.update rid (length (futures s)) (pending_requests s))"
    with set_update_subset have "(k, b) = (rid, length (futures s)) \<or> (k, b) \<in> set (pending_requests s)"
      by fastforce
    with ok show "b < Suc (length (futures s))"
      by (auto simp: table_ok_def list_all_iff)
  qed
  then show ?thesis
    by (auto simp: table_ok_def list_all_iff stdin_write_def register_request_def)
qed

lemma table_ok_handle_message: "table_ok s \<Longrightarrow> table_ok (fst (handle_message s m))"
proof -
  assume ok: "table_ok s"
  have del: "\<And>k p. p \<in> set (AList.delete k (pending_requests s)) \<Longrightarrow> p \<in> set (pending_requests s)"
    using set_delete_subset by fastforce
  show ?thesis
    using ok
    by (auto simp: handle_message_def table_ok_def list_all_iff set_result_def Let_def
        dest!: del split: outcome.splits option.splits bool.splits if_splits)
qed

lemma table_ok_read: "table_ok s \<Longrightarrow> table_ok (read_responses L lines s)"
  by (rule read_induct [of table_ok]) (simp_all add: table_ok_flag table_ok_handle_message)

text \<open>
  What holds of a session and is kept by every step of \<^verbatim>\<open>_send_request\<close>, the
  registration and the write, the reader, the cancellation and the removal, holds of
  the session the request leaves.
\<close>

lemma send_request_induct:
  assumes init: "P s"
    and written: "\<And>data. P (stdin_write (register_request s (request_id E)) data)"
    and halt: "\<And>s. P s \<Longrightarrow> P (s\<lparr>reader_running := False\<rparr>)"
    and step: "\<And>s m. P s \<Longrightarrow> P (fst (handle_message s m))"
    and cancel: "\<And>s a. P s \<Longrightarrow> P (s\<lparr>futures := (futures s)[a := Cancelled]\<rparr>)"
    and remove: "\<And>s k. P s \<Longrightarrow> P (s\<lparr>pending_requests := AList.delete k (pending_requests s)\<rparr>)"
  shows "P (fst (send_request L s meth params E))"
proof (cases "process s = None")
  case True
  with init show ?thesis by (simp add: send_request_def)
next
  case False
  let ?a = "length (futures s)"
  let ?w = "stdin_write (register_request s (request_id E))
              (json_dumps L (make_request (request_id E) meth params) @ [CHR 0x0A])"
  let ?r = "read_responses L (incoming E) ?w"
  let ?c = "?r\<lparr>futures := (futures ?r)[?a := Cancelled]\<rparr>"
  let ?x = "read_responses L (late E) ?c"
  have r: "P ?r" by (rule read_induct [of P, OF written halt step])
  have "P ?c" by (rule cancel [OF r])
  then have x: "P ?x" by (rule read_induct [of P, OF _ halt step])
  have d: "P (?x\<lparr>pending_requests := AList.delete (request_id E) (pending_requests ?x)\<rparr>)"
    by (rule remove [OF x])
  from False have run: "(process s = None) = False" by simp
  show ?thesis
    unfolding send_request_def Let_def run if_False
    using r x d
    by (simp split: outcome.splits deadline.splits future.splits)
qed

lemma table_ok_send_request:
  assumes "table_ok s"
  shows "table_ok (fst (send_request L s meth params E))"
proof (rule send_request_induct [of table_ok, OF assms])
  show "table_ok (stdin_write (register_request s (request_id E)) data)" for data
    by (rule table_ok_register [OF assms])
next
  show "table_ok (s1\<lparr>pending_requests := AList.delete k (pending_requests s1)\<rparr>)"
    if "table_ok s1" for s1 k
    using that set_delete_subset [of k "pending_requests s1"]
    by (auto simp: table_ok_def list_all_iff)
next
  show "table_ok (s1\<lparr>futures := (futures s1)[a := Cancelled]\<rparr>)" if "table_ok s1" for s1 a
    using that by (simp add: table_ok_def)
qed (simp_all add: table_ok_flag table_ok_handle_message)

text \<open>
  A request that returns is settled: its id has left the table, and its future holds
  the response that is returned, or is cancelled and the timeout error is returned.
\<close>

lemma pending_id_member:
  "pending_id s m = Returns (Some k) \<Longrightarrow> k \<in> set (map fst (pending_requests s))"
  by (auto simp: pending_id_def split: outcome.splits bool.splits json.splits if_splits)

lemma slot_settled_flag: "slot_settled rid a (s\<lparr>reader_running := b\<rparr>) = slot_settled rid a s"
  by (simp add: slot_settled_def)

lemma handle_message_settles:
  assumes "slot_waiting rid a s \<or> slot_settled rid a s"
  shows "slot_waiting rid a (fst (handle_message s m)) \<or> slot_settled rid a (fst (handle_message s m))"
proof (cases "pending_id s m")
  case (Returns r)
  show ?thesis
  proof (cases r)
    case None
    with Returns assms show ?thesis
      by (auto simp: handle_message_def split: outcome.splits bool.splits)
  next
    case (Some k)
    with Returns have k: "pending_id s m = Returns (Some k)" by simp
    from pending_id_member [OF k] have "map_of (pending_requests s) k \<noteq> None"
      by (simp add: map_of_eq_None_iff)
    then obtain b where b: "map_of (pending_requests s) k = Some b" by blast
    let ?p = "s\<lparr>pending_requests := AList.delete k (pending_requests s)\<rparr>"
    from assms show ?thesis
    proof
      assume w: "slot_waiting rid a s"
      show ?thesis
      proof (cases "k = rid")
        case True
        with b w have ba: "b = a" by (simp add: slot_waiting_def)
        from w have "set_result (futures s) a m = Some ((futures s)[a := Done m])"
          by (simp add: slot_waiting_def set_result_def)
        with k b ba have hm: "fst (handle_message s m) = ?p\<lparr>futures := (futures s)[a := Done m]\<rparr>"
          by (simp add: handle_message_def)
        have "slot_settled rid a (?p\<lparr>futures := (futures s)[a := Done m]\<rparr>)"
          using w True
          by (auto simp: slot_settled_def slot_waiting_def delete_keys delete_conv' split: if_splits)
        with hm show ?thesis by simp
      next
        case False
        with b w have ba: "b \<noteq> a" by (auto simp: slot_waiting_def)
        have del: "slot_waiting rid a ?p"
          using w False by (auto simp: slot_waiting_def delete_conv')
        show ?thesis
        proof (cases "set_result (futures s) b m")
          case None
          with k b del show ?thesis by (simp add: handle_message_def)
        next
          case (Some fs)
          then have fs: "fs = (futures s)[b := Done m]"
            by (auto simp: set_result_def split: if_splits)
          have "slot_waiting rid a (?p\<lparr>futures := fs\<rparr>)"
            using del ba by (simp add: slot_waiting_def fs)
          with k b Some show ?thesis by (simp add: handle_message_def)
        qed
      qed
    next
      assume st: "slot_settled rid a s"
      with b have ba: "b \<noteq> a" by (auto simp: slot_settled_def)
      have del: "slot_settled rid a ?p"
        using st by (auto simp: slot_settled_def delete_keys delete_conv' split: if_splits)
      show ?thesis
      proof (cases "set_result (futures s) b m")
        case None
        with k b del show ?thesis by (simp add: handle_message_def)
      next
        case (Some fs)
        then have fs: "fs = (futures s)[b := Done m]"
          by (auto simp: set_result_def split: if_splits)
        have "slot_settled rid a (?p\<lparr>futures := fs\<rparr>)"
          using del ba by (simp add: slot_settled_def fs)
        with k b Some show ?thesis by (simp add: handle_message_def)
      qed
    qed
  qed
next
  case (Raises e)
  with assms show ?thesis by (simp add: handle_message_def)
next
  case Hangs
  with assms show ?thesis by (simp add: handle_message_def)
qed

lemma read_settles:
  assumes "slot_waiting rid a s \<or> slot_settled rid a s"
  shows "slot_waiting rid a (read_responses L lines s) \<or>
         slot_settled rid a (read_responses L lines s)"
  by (rule read_induct [of "\<lambda>s. slot_waiting rid a s \<or> slot_settled rid a s", OF assms])
    (simp_all add: slot_waiting_flag slot_settled_flag handle_message_settles)

lemma send_request_settles:
  assumes ok: "table_ok self"
    and ret: "send_request L self meth params E = (self', Returns v)"
  shows "request_id E \<notin> set (map fst (pending_requests self')) \<and>
         (futures self' ! length (futures self) = Done v \<or>
          futures self' ! length (futures self) = Cancelled \<and> v = timeout_error L self)"
proof -
  let ?a = "length (futures self)"
  let ?w = "stdin_write (register_request self (request_id E))
              (json_dumps L (make_request (request_id E) meth params) @ [CHR 0x0A])"
  let ?r = "read_responses L (incoming E) ?w"
  let ?c = "?r\<lparr>futures := (futures ?r)[?a := Cancelled]\<rparr>"
  let ?x = "read_responses L (late E) ?c"
  from ret have run: "(process self = None) = False"
    by (auto simp: send_request_def split: if_splits)
  have "slot_waiting (request_id E) ?a ?w" by (rule registered_slot_waiting [OF ok])
  then have "slot_waiting (request_id E) ?a ?r \<or> slot_settled (request_id E) ?a ?r"
    using read_settles [of "request_id E" ?a ?w L "incoming E"] by simp
  then show ?thesis
  proof
    assume w: "slot_waiting (request_id E) ?a ?r"
    then have wait: "futures ?r ! ?a = Waiting" and len: "?a < length (futures ?r)"
      by (simp_all add: slot_waiting_def)
    from len have "?a < length (futures ?c) \<and> futures ?c ! ?a = Cancelled" by simp
    from read_keeps_cancelled [OF this] have cx: "futures ?x ! ?a = Cancelled" by simp
    from ret show ?thesis
      unfolding send_request_def Let_def run if_False
      using wait cx
      by (auto simp: delete_no_entry split: outcome.splits deadline.splits if_splits)
  next
    assume st: "slot_settled (request_id E) ?a ?r"
    then obtain m where m: "futures ?r ! ?a = Done m"
      and gone: "request_id E \<notin> set (map fst (pending_requests ?r))"
      by (auto simp: slot_settled_def)
    from ret show ?thesis
      unfolding send_request_def Let_def run if_False
      using m gone
      by (auto split: outcome.splits deadline.splits if_splits)
  qed
qed

section \<open>The examples, evaluated\<close>

lemma example_handle_hello:
  "handle_message (s\<lparr>pending_requests := [(''r3'', 0)], futures := [Waiting]\<rparr>) hello_response =
     (s\<lparr>pending_requests := [], futures := [Done hello_response]\<rparr>, None)"
  by (simp add: handle_message_def pending_id_def py_in_def py_getitem_def hello_response_def
      set_result_def)

lemma example_handle_no_message:
  "handle_message (s\<lparr>pending_requests := [(''r3'', 0)], futures := [Waiting]\<rparr>) no_message_response =
     (s\<lparr>pending_requests := [], futures := [Done no_message_response]\<rparr>, None)"
  by (simp add: handle_message_def pending_id_def py_in_def py_getitem_def no_message_response_def
      set_result_def)

lemma example_registered:
  "stdin_write (register_request running_session ''r3'') data =
     running_session\<lparr>process := Some \<lparr>stdin = [data]\<rparr>, message_id_counter := 1,
       pending_requests := [(''r3'', 0)], futures := [Waiting]\<rparr>"
  by (simp add: running_session_def MCPServer_init_def register_request_def stdin_write_def)

lemma example_running: "process running_session \<noteq> None" "timeout running_session = JFloat (Finite 120)"
  "futures running_session = []" "pending_requests running_session = []"
  "name running_session = ''fs''" "table_ok running_session" "reader_running running_session"
  "wait_deadline (timeout running_session) = Deadline"
  by (simp_all add: running_session_def MCPServer_init_def table_ok_def wait_deadline_def)

lemma example_send_hello:
  "send_request example_lib running_session ''tools/call'' (tools_call ''greet'' (JObj []))
     (request_r3 [hello_text @ [CHR 0x0A]]) =
   (running_session\<lparr>process := Some \<lparr>stdin = [call_request_text @ [CHR 0x0A]]\<rparr>,
      message_id_counter := 1, pending_requests := [], futures := [Done hello_response]\<rparr>,
    Returns hello_response)"
  by (simp add: send_request_def Let_def wait_deadline_def request_r3_def example_running example_registered
      example_dumps_call read_responses_def example_lines_short example_decode hello_text_ascii example_strip
      example_loads_hello example_handle_hello)

lemma example_send_no_message:
  "send_request example_lib running_session ''tools/call'' (tools_call ''greet'' (JObj []))
     (request_r3 [no_message_text @ [CHR 0x0A]]) =
   (running_session\<lparr>process := Some \<lparr>stdin = [call_request_text @ [CHR 0x0A]]\<rparr>,
      message_id_counter := 1, pending_requests := [], futures := [Done no_message_response]\<rparr>,
    Returns no_message_response)"
  by (simp add: send_request_def Let_def wait_deadline_def request_r3_def example_running example_registered
      example_dumps_call read_responses_def example_lines_short example_decode no_message_text_ascii example_strip
      example_loads_no_message example_handle_no_message)

section \<open>The claims about tool calls\<close>

text \<open>
  C4. For a successful \<^verbatim>\<open>tools/call\<close> response (no \<open>error\<close> key; the result
  an object, absent meaning \<open>{}\<close>; its content a list of well-formed entries,
  absent meaning \<open>[]\<close>) the session's \<^verbatim>\<open>call_tool\<close> returns the texts of the
  text entries joined by newlines as \<open>result\<close>, or the serialized raw result when
  there is no text entry; the image entries with their mime type, \<open>image/png\<close>
  when absent, as \<open>images\<close> (the key is left out when there is none); and
  \<open>isError\<close> copied from the result, \<open>False\<close> when absent.
\<close>

theorem call_tool_shapes_result:
  assumes sent: "send_request L self ''tools/call'' (tools_call tool_name arguments) E =
                   (self', Returns (JObj r))"
    and ok: "''error'' \<notin> set (map fst r)"
    and res: "field_or r ''result'' (JObj []) = JObj res"
    and con: "field_or res ''content'' (JArr []) = JArr items"
    and wf: "list_all wf_item items"
  shows "MCPServer_call_tool L self tool_name arguments E =
     (self', Returns (JObj
        ([(''isError'', field_or res ''isError'' (JBool False)),
          (''result'', JStr (if text_entries items = [] then json_dumps L (JObj res)
                             else join_lines (text_entries items)))] @
         (if image_entries items = [] then [] else [(''images'', JArr (image_entries items))]))))"
  by (simp add: MCPServer_call_tool_def sent call_tool_result_success [OF ok res con wf])

text \<open>The result with the single entry \<open>{type: "text", text: "hello"}\<close>.\<close>

theorem call_tool_shapes_result_witness:
  "MCPServer_call_tool example_lib running_session ''greet'' (JObj [])
     (request_r3 [hello_text @ [CHR 0x0A]]) =
   (running_session\<lparr>process := Some \<lparr>stdin = [call_request_text @ [CHR 0x0A]]\<rparr>,
      message_id_counter := 1, pending_requests := [], futures := [Done hello_response]\<rparr>,
    Returns (JObj [(''isError'', JBool False), (''result'', JStr ''hello'')]))"
proof -
  let ?items = "[JObj [(''type'', JStr ''text''), (''text'', JStr ''hello'')]]"
  let ?res = "[(''content'', JArr ?items)]"
  let ?r = "[(''jsonrpc'', JStr ''2.0''), (''id'', JStr ''r3''), (''result'', JObj ?res)]"
  have sent: "send_request example_lib running_session ''tools/call'' (tools_call ''greet'' (JObj []))
      (request_r3 [hello_text @ [CHR 0x0A]]) =
    (running_session\<lparr>process := Some \<lparr>stdin = [call_request_text @ [CHR 0x0A]]\<rparr>,
      message_id_counter := 1, pending_requests := [], futures := [Done hello_response]\<rparr>,
     Returns (JObj ?r))"
    using example_send_hello by (simp add: hello_response_def)
  have ok: "''error'' \<notin> set (map fst ?r)" by simp
  have res: "field_or ?r ''result'' (JObj []) = JObj ?res" by (simp add: field_or_def)
  have con: "field_or ?res ''content'' (JArr []) = JArr ?items" by (simp add: field_or_def)
  have wf: "list_all wf_item ?items" by (simp add: is_text_def field_or_def)
  from call_tool_shapes_result [OF sent ok res con wf]
  show ?thesis by (simp add: field_or_def is_text_def is_image_def)
qed

text \<open>
  C9. The error branch of the session's \<^verbatim>\<open>call_tool\<close> reads
  \<^verbatim>\<open>response["error"]["message"]\<close> without a guard: when the error object of
  the response has a \<open>message\<close>, the call returns \<open>{error: message, isError: True}\<close>;
  when it has none, the call raises \<^verbatim>\<open>KeyError\<close>. The error that a timeout
  synthesizes has a message, so it takes the first way.
\<close>

theorem call_tool_error_branch:
  "(send_request L self ''tools/call'' (tools_call tool_name arguments) E = (self', Returns (JObj r)) \<and>
    map_of r ''error'' = Some (JObj e) \<longrightarrow>
      MCPServer_call_tool L self tool_name arguments E =
        (self', case map_of e ''message'' of
                  Some m \<Rightarrow> Returns (JObj [(''error'', m), (''isError'', JBool True)])
                | None \<Rightarrow> Raises (KeyError ''message''))) \<and>
   call_tool_result L (timeout_error L self) =
     Returns (JObj [(''error'', JStr (''Request timeout after '' @ py_format L (timeout self) @ ''s'')),
                    (''isError'', JBool True)])"
proof (intro conjI impI)
  assume a: "send_request L self ''tools/call'' (tools_call tool_name arguments) E =
      (self', Returns (JObj r)) \<and> map_of r ''error'' = Some (JObj e)"
  then have err: "map_of r ''error'' = Some (JObj e)" by simp
  from a show "MCPServer_call_tool L self tool_name arguments E =
        (self', case map_of e ''message'' of
                  Some m \<Rightarrow> Returns (JObj [(''error'', m), (''isError'', JBool True)])
                | None \<Rightarrow> Raises (KeyError ''message''))"
    by (simp add: MCPServer_call_tool_def call_tool_result_error [OF err])
next
  show "call_tool_result L (timeout_error L self) =
     Returns (JObj [(''error'', JStr (''Request timeout after '' @ py_format L (timeout self) @ ''s'')),
                    (''isError'', JBool True)])"
    using call_tool_result_timeout [of L self] by (simp add: timeout_result_def)
qed

text \<open>An error response without a message: the call raises.\<close>

theorem call_tool_error_branch_witness:
  "MCPServer_call_tool example_lib running_session ''greet'' (JObj [])
     (request_r3 [no_message_text @ [CHR 0x0A]]) =
   (running_session\<lparr>process := Some \<lparr>stdin = [call_request_text @ [CHR 0x0A]]\<rparr>,
      message_id_counter := 1, pending_requests := [], futures := [Done no_message_response]\<rparr>,
    Raises (KeyError ''message''))"
proof -
  let ?e = "[(''code'', JInt (- 32601))]"
  let ?r = "[(''jsonrpc'', JStr ''2.0''), (''id'', JStr ''r3''), (''error'', JObj ?e)]"
  have sent: "send_request example_lib running_session ''tools/call'' (tools_call ''greet'' (JObj []))
      (request_r3 [no_message_text @ [CHR 0x0A]]) =
    (running_session\<lparr>process := Some \<lparr>stdin = [call_request_text @ [CHR 0x0A]]\<rparr>,
      message_id_counter := 1, pending_requests := [], futures := [Done no_message_response]\<rparr>,
     Returns (JObj ?r))"
    using example_send_no_message by (simp add: no_message_response_def)
  have err: "map_of ?r ''error'' = Some (JObj ?e)" by simp
  from call_tool_error_branch [THEN conjunct1, THEN mp, OF conjI, OF sent err]
  show ?thesis by simp
qed




section \<open>Starting the configured servers\<close>







section \<open>Invariants of the registry\<close>

text \<open>
  The handshake and every call keep a session under its name, with its process and a
  well-formed table; \<^verbatim>\<open>start_all\<close> and the supervisor's \<^verbatim>\<open>call_tool\<close> keep
  the registry made of such sessions.
\<close>

lemma handle_message_same:
  "name (fst (handle_message s m)) = name s \<and> process (fst (handle_message s m)) = process s"
  by (auto simp: handle_message_def Let_def split: outcome.splits option.splits bool.splits)

lemma read_same:
  "name (read_responses L lines s) = name s \<and> process (read_responses L lines s) = process s"
  by (rule read_induct [of "\<lambda>s'. name s' = name s \<and> process s' = process s"])
    (simp_all add: handle_message_same)

text \<open>
  A request on a session with a process writes its line to the process, whatever
  becomes of the request.
\<close>

lemma send_request_writes:
  assumes "process s = Some p"
  shows "process (fst (send_request L s meth params E)) =
           Some (p\<lparr>stdin := stdin p @
             [json_dumps L (make_request (request_id E) meth params) @ [CHR 0x0A]]\<rparr>)"
proof -
  let ?a = "length (futures s)"
  let ?w = "stdin_write (register_request s (request_id E))
              (json_dumps L (make_request (request_id E) meth params) @ [CHR 0x0A])"
  let ?r = "read_responses L (incoming E) ?w"
  let ?c = "?r\<lparr>futures := (futures ?r)[?a := Cancelled]\<rparr>"
  let ?x = "read_responses L (late E) ?c"
  let ?p = "Some (p\<lparr>stdin := stdin p @
             [json_dumps L (make_request (request_id E) meth params) @ [CHR 0x0A]]\<rparr>)"
  from assms have w: "process ?w = ?p"
    by (simp add: stdin_write_def register_request_def)
  with read_same [of L "incoming E" ?w] have r: "process ?r = ?p" by simp
  then have "process ?c = ?p" by simp
  with read_same [of L "late E" ?c] have x: "process ?x = ?p" by simp
  from assms have run: "(process s = None) = False" by simp
  show ?thesis
    unfolding send_request_def Let_def run if_False
    using r x
    by (simp split: outcome.splits deadline.splits future.splits)
qed

lemma send_request_same:
  "name (fst (send_request L s meth params E)) = name s \<and>
   (process s \<noteq> None \<longrightarrow> process (fst (send_request L s meth params E)) \<noteq> None)"
proof
  show "name (fst (send_request L s meth params E)) = name s"
    by (rule send_request_induct [of "\<lambda>s'. name s' = name s"])
      (simp_all add: handle_message_same stdin_write_def register_request_def)
next
  show "process s \<noteq> None \<longrightarrow> process (fst (send_request L s meth params E)) \<noteq> None"
    using send_request_writes [of s _ L meth params E] by auto
qed

lemma send_request_ok:
  assumes "session_ok k s"
  shows "session_ok k (fst (send_request L s meth params E))"
  using assms send_request_same [of L s meth params E] table_ok_send_request [of s L meth params E]
  by (simp add: session_ok_def)

lemma send_notification_ok:
  assumes "session_ok k s"
  shows "session_ok k (fst (send_notification L s method params d))"
  using assms
  by (auto simp: session_ok_def send_notification_def Let_def stdin_write_def table_ok_def)

lemma fetch_tools_ok:
  assumes "session_ok k s"
  shows "session_ok k (fst (fetch_tools L s E))"
proof -
  obtain s' r where sr: "send_request L s ''tools/list'' (JObj []) E = (s', r)"
    by (cases "send_request L s ''tools/list'' (JObj []) E")
  with send_request_ok [OF assms, of L "''tools/list''" "JObj []" E] have s': "session_ok k s'" by simp
  then have "session_ok k (s'\<lparr>tools := ts\<rparr>)" for ts
    by (simp add: session_ok_def table_ok_def)
  with s' sr show ?thesis
    by (auto simp: fetch_tools_def split: outcome.splits bool.splits)
qed

lemma initialize_ok:
  assumes "session_ok k s"
  shows "session_ok k (fst (initialize L s E))"
proof -
  obtain s1 r where sr: "send_request L s ''initialize'' initialize_params (initialize_env E) = (s1, r)"
    by (cases "send_request L s ''initialize'' initialize_params (initialize_env E)")
  with send_request_ok [OF assms, of L "''initialize''" initialize_params "initialize_env E"]
  have s1: "session_ok k s1" by simp
  obtain s2 r2 where sn: "send_notification L s1 ''notifications/initialized'' None
      (initialized_drain E) = (s2, r2)"
    by (cases "send_notification L s1 ''notifications/initialized'' None (initialized_drain E)")
  with send_notification_ok [OF s1, of L "''notifications/initialized''" None "initialized_drain E"]
  have s2: "session_ok k s2" by simp
  from fetch_tools_ok [OF s2] have "session_ok k (fst (fetch_tools L s2 (tools_list_env E)))" .
  with s1 s2 sr sn show ?thesis
    by (auto simp: initialize_def split: outcome.splits bool.splits)
qed

lemma start_ok:
  assumes "table_ok s" and "MCPServer_start L s E = (s', Returns u)"
  shows "session_ok (name s) s'"
proof -
  let ?ready = "s\<lparr>process := Some \<lparr>stdin = []\<rparr>, reader_running := True\<rparr>"
  from assms(1) have "session_ok (name s) ?ready"
    by (simp add: session_ok_def table_ok_def)
  from initialize_ok [OF this, of L E] have "session_ok (name s) (fst (initialize L ?ready E))" .
  moreover from assms(2) have "s' = fst (initialize L ?ready E)"
    by (auto simp: MCPServer_start_def split: option.splits if_splits)
  ultimately show ?thesis by simp
qed

lemma start_entry_ok:
  assumes "start_entry L n server_config E = (Some s', Returns u)"
  shows "session_ok n s'"
proof -
  from assms obtain c a e t where st: "MCPServer_start L (MCPServer_init n c a e t) E = (s', Returns u)"
    by (auto simp: start_entry_def and_then_def split: outcome.splits prod.splits)
  have "name (MCPServer_init n c a e t) = n" by (simp add: MCPServer_init_def)
  with start_ok [OF table_ok_init st] show ?thesis by simp
qed

lemma registry_ok_update:
  assumes "registry_ok servers" and "session_ok k s"
  shows "registry_ok (AList.update k s servers)"
proof -
  have "session_ok a b" if "(a, b) \<in> set (AList.update k s servers)" for a b
  proof -
    from that set_update_subset [of k s servers]
    have "(a, b) = (k, s) \<or> (a, b) \<in> set servers" by blast
    with assms show ?thesis by (auto simp: registry_ok_def list_all_iff)
  qed
  with assms(1) show ?thesis
    by (auto simp: registry_ok_def list_all_iff distinct_update)
qed

lemma registry_ok_empty: "registry_ok []"
  by (simp add: registry_ok_def)

lemma start_all_loop_ok:
  assumes "registry_ok servers"
  shows "registry_ok (fst (start_all_loop L envs entries servers))"
  using assms
proof (induction entries arbitrary: servers)
  case Nil
  then show ?case by simp
next
  case (Cons entry entries)
  obtain n c where entry: "entry = (n, c)" by (cases entry)
  obtain so r where se: "start_entry L n c (envs n) = (so, r)" by (cases "start_entry L n c (envs n)")
  show ?case
  proof (cases r)
    case (Returns u)
    show ?thesis
    proof (cases so)
      case None
      with Returns se entry Cons.IH [OF Cons.prems] show ?thesis by simp
    next
      case (Some s)
      with Returns se start_entry_ok [of L n c "envs n" s u] have "session_ok n s" by simp
      from Cons.IH [OF registry_ok_update [OF Cons.prems this]] Returns Some se entry
      show ?thesis by simp
    qed
  next
    case (Raises e)
    with se entry Cons.IH [OF Cons.prems] show ?thesis by (cases so) simp_all
  next
    case Hangs
    with se entry Cons.prems show ?thesis by (cases so) simp_all
  qed
qed

lemma start_all_ok:
  assumes "registry_ok servers"
  shows "registry_ok (fst (MCPManager_start_all L servers config_file envs))"
  using assms start_all_loop_ok [OF assms]
  by (auto simp: MCPManager_start_all_def split: option.splits sum.splits outcome.splits json.splits)

lemma call_tool_ok:
  assumes "session_ok k s"
  shows "session_ok k (fst (MCPServer_call_tool L s tool_name arguments E))"
proof -
  obtain s' r where sr: "send_request L s ''tools/call'' (tools_call tool_name arguments) E = (s', r)"
    by (cases "send_request L s ''tools/call'' (tools_call tool_name arguments) E")
  with send_request_ok [OF assms, of L "''tools/call''" "tools_call tool_name arguments" E]
  have "session_ok k s'" by simp
  with sr show ?thesis
    by (cases r) (simp_all add: MCPServer_call_tool_def)
qed

lemma manager_call_tool_ok:
  assumes "registry_ok servers"
  shows "registry_ok (fst (MCPManager_call_tool L servers tool_name arguments E))"
proof (cases "str_contains ''__'' tool_name")
  case False
  with assms show ?thesis by (simp add: MCPManager_call_tool_def)
next
  case True
  show ?thesis
  proof (cases "str_split1 ''__'' tool_name")
    case None
    with True assms show ?thesis by (simp add: MCPManager_call_tool_def)
  next
    case (Some ab)
    obtain sn rest where ab: "ab = (sn, rest)" by (cases ab)
    show ?thesis
    proof (cases "map_of servers sn")
      case None
      with True Some ab assms show ?thesis by (simp add: MCPManager_call_tool_def)
    next
      case (Some server)
      then have "(sn, server) \<in> set servers" by (rule map_of_SomeD)
      with assms have "session_ok sn server" by (auto simp: registry_ok_def list_all_iff)
      from registry_ok_update [OF assms call_tool_ok [OF this, of L rest arguments E]]
      show ?thesis
        using True \<open>str_split1 ''__'' tool_name = Some ab\<close> ab Some
        by (simp add: MCPManager_call_tool_def split_beta)
    qed
  qed
qed









lemma example_call_hello:
  "MCPServer_call_tool example_lib running_session ''greet'' (JObj [])
     (request_r3 [hello_text @ [CHR 0x0A]]) =
   (running_session\<lparr>process := Some \<lparr>stdin = [call_request_text @ [CHR 0x0A]]\<rparr>,
      message_id_counter := 1, pending_requests := [], futures := [Done hello_response]\<rparr>,
    Returns (JObj [(''isError'', JBool False), (''result'', JStr ''hello'')]))"
  by (simp add: MCPServer_call_tool_def example_send_hello hello_response_def call_tool_result_def
      py_in_def py_get_def and_then_def py_iter_def)



lemma example_tools_after_start:
  "MCPManager_get_all_tools example_lib [(''A'', session_A)] =
     Returns [JObj [(''name'', JStr ''A__read_file''), (''mcp_server'', JStr ''A''),
                    (''original_name'', JStr ''read_file'')]]"
  by (simp add: MCPManager_get_all_tools_def MCPServer_get_tools_def session_A_def py_iter_def
      prefix_tool_def py_format_def)

section \<open>The aggregated catalog\<close>










section \<open>What leaves the public operations\<close>





text \<open>When every session stops, \<^verbatim>\<open>stop_all\<close> returns and the registry is empty.\<close>

lemma stop_all_loop_returns:
  assumes "list_all (\<lambda>(k, s'). snd (MCPServer_stop s' (envs k)) = Returns ()) servers"
  shows "snd (stop_all_loop envs servers stopped) = Returns ()"
  using assms
proof (induction servers arbitrary: stopped)
  case Nil
  show ?case by simp
next
  case (Cons entry servers)
  obtain k s1 where entry: "entry = (k, s1)" by (cases entry)
  obtain s1' r where sr: "MCPServer_stop s1 (envs k) = (s1', r)" by (cases "MCPServer_stop s1 (envs k)")
  from Cons.prems entry sr have r: "r = Returns ()"
    and rest: "list_all (\<lambda>(k, s'). snd (MCPServer_stop s' (envs k)) = Returns ()) servers"
    by simp_all
  from Cons.IH [OF rest, of "stopped @ [(k, s1')]"] entry sr r show ?case by simp
qed

lemma stop_all_returns:
  assumes "list_all (\<lambda>(k, s'). snd (MCPServer_stop s' (envs k)) = Returns ()) servers"
  shows "MCPManager_stop_all envs servers = ([], Returns ())"
proof -
  obtain servers' r where sr: "stop_all_loop envs servers [] = (servers', r)"
    by (cases "stop_all_loop envs servers []")
  with stop_all_loop_returns [OF assms, of "[]"] have "r = Returns ()" by simp
  with sr show ?thesis by (simp add: MCPManager_stop_all_def)
qed

section \<open>The claims about the supervisor\<close>

text \<open>
  C5. \<^verbatim>\<open>MCPManager.call_tool\<close> on a name without \<open>__\<close> returns the payload of
  an invalid tool name. On a name whose first \<open>__\<close> follows the segment \<open>sn\<close>
  it returns the payload of an unknown server when \<open>sn\<close> is not in the registry,
  and otherwise hands the call to the session registered under \<open>sn\<close>, with the
  rest of the name after that \<open>__\<close> as the tool name.
\<close>

theorem call_tool_routing:
  "(\<not> (\<exists>a b. tool_name = a @ ''__'' @ b) \<longrightarrow>
      MCPManager_call_tool L servers tool_name arguments E =
        (servers, Returns (invalid_tool_name tool_name))) \<and>
   (\<forall>sn rest. tool_name = sn @ ''__'' @ rest \<and> delim_safe sn \<longrightarrow>
      (map_of servers sn = None \<longrightarrow>
         MCPManager_call_tool L servers tool_name arguments E =
           (servers, Returns (unknown_server sn))) \<and>
      (\<forall>server. map_of servers sn = Some server \<longrightarrow>
         MCPManager_call_tool L servers tool_name arguments E =
           delegate L servers sn server rest arguments E))"
proof (intro conjI impI allI)
  assume "\<not> (\<exists>a b. tool_name = a @ ''__'' @ b)"
  then have "\<not> str_contains ''__'' tool_name" by (simp add: str_contains_iff)
  then show "MCPManager_call_tool L servers tool_name arguments E =
        (servers, Returns (invalid_tool_name tool_name))"
    by (rule call_tool_no_delimiter)
next
  fix sn rest
  assume a: "tool_name = sn @ ''__'' @ rest \<and> delim_safe sn" and n: "map_of servers sn = None"
  from a have tn: "tool_name = sn @ ''__'' @ rest" and safe: "delim_safe sn" by simp_all
  show "MCPManager_call_tool L servers tool_name arguments E = (servers, Returns (unknown_server sn))"
    unfolding tn call_tool_split [OF safe] n by simp
next
  fix sn rest server
  assume a: "tool_name = sn @ ''__'' @ rest \<and> delim_safe sn" and n: "map_of servers sn = Some server"
  from a have tn: "tool_name = sn @ ''__'' @ rest" and safe: "delim_safe sn" by simp_all
  show "MCPManager_call_tool L servers tool_name arguments E =
           delegate L servers sn server rest arguments E"
    unfolding tn call_tool_split [OF safe] n by simp
qed

theorem call_tool_routing_witness:
  "MCPManager_call_tool example_lib [(''fs'', running_session)] ''nodelimiter'' (JObj []) (request_r3 []) =
     ([(''fs'', running_session)], Returns (invalid_tool_name ''nodelimiter'')) \<and>
   MCPManager_call_tool example_lib [(''fs'', running_session)] ''unknown__x'' (JObj []) (request_r3 []) =
     ([(''fs'', running_session)], Returns (unknown_server ''unknown'')) \<and>
   snd (MCPManager_call_tool example_lib [(''fs'', running_session)] ''fs__greet'' (JObj [])
          (request_r3 [hello_text @ [CHR 0x0A]])) =
     Returns (JObj [(''isError'', JBool False), (''result'', JStr ''hello'')])"
proof (intro conjI)
  let ?R = "[(''fs'', running_session)]"
  have no: "\<not> (\<exists>a b. ''nodelimiter'' = a @ ''__'' @ b)"
    unfolding str_contains_iff [symmetric] by simp
  from call_tool_routing [THEN conjunct1, THEN mp, OF no]
  show "MCPManager_call_tool example_lib ?R ''nodelimiter'' (JObj []) (request_r3 []) =
     (?R, Returns (invalid_tool_name ''nodelimiter''))" .
next
  let ?R = "[(''fs'', running_session)]"
  have split: "''unknown__x'' = ''unknown'' @ ''__'' @ ''x'' \<and> delim_safe ''unknown''"
    by (simp add: delim_safe_def)
  have none: "map_of ?R ''unknown'' = None" by simp
  from call_tool_routing [THEN conjunct2, THEN spec, THEN spec, THEN mp, OF split,
      THEN conjunct1, THEN mp, OF none]
  show "MCPManager_call_tool example_lib ?R ''unknown__x'' (JObj []) (request_r3 []) =
     (?R, Returns (unknown_server ''unknown''))" .
next
  let ?R = "[(''fs'', running_session)]"
  have split: "''fs__greet'' = ''fs'' @ ''__'' @ ''greet'' \<and> delim_safe ''fs''"
    by (simp add: delim_safe_def)
  have some: "map_of ?R ''fs'' = Some running_session" by simp
  from call_tool_routing [THEN conjunct2, THEN spec, THEN spec, THEN mp, OF split,
      THEN conjunct2, THEN spec, THEN mp, OF some]
  have "MCPManager_call_tool example_lib ?R ''fs__greet'' (JObj []) (request_r3 [hello_text @ [CHR 0x0A]]) =
     delegate example_lib ?R ''fs'' running_session ''greet'' (JObj []) (request_r3 [hello_text @ [CHR 0x0A]])" .
  then show "snd (MCPManager_call_tool example_lib ?R ''fs__greet'' (JObj [])
          (request_r3 [hello_text @ [CHR 0x0A]])) =
     Returns (JObj [(''isError'', JBool False), (''result'', JStr ''hello'')])"
    by (simp add: delegate_def example_call_hello)
qed

text \<open>
  C10, as amended. \<^verbatim>\<open>MCPManager.call_tool\<close> accepts empty segments. A name that
  begins with \<open>__\<close> is routed with the empty string as server name: the payload of
  an unknown server, unless a session is registered under the empty name, which then
  gets the call. A name that ends with \<open>__\<close> after the name of a registered
  session that contains no \<open>__\<close> and does not end in \<open>_\<close>, so that the
  \<open>__\<close> at the end is the first one, is handed to that session with the empty
  string as tool name.
\<close>

theorem call_tool_empty_segments:
  "(MCPManager_call_tool L servers (''__'' @ rest) arguments E =
      (case map_of servers [] of
         None \<Rightarrow> (servers, Returns (unknown_server []))
       | Some server \<Rightarrow> delegate L servers [] server rest arguments E)) \<and>
   (delim_safe sn \<and> map_of servers sn = Some server \<longrightarrow>
      MCPManager_call_tool L servers (sn @ ''__'') arguments E =
        delegate L servers sn server [] arguments E)"
proof (intro conjI impI)
  have "delim_safe []" by (simp add: delim_safe_def)
  from call_tool_split [OF this, of L servers rest arguments E]
  show "MCPManager_call_tool L servers (''__'' @ rest) arguments E =
      (case map_of servers [] of
         None \<Rightarrow> (servers, Returns (unknown_server []))
       | Some server \<Rightarrow> delegate L servers [] server rest arguments E)"
    by simp
next
  assume a: "delim_safe sn \<and> map_of servers sn = Some server"
  then have "delim_safe sn" by simp
  from call_tool_split [OF this, of L servers "[]" arguments E] a
  show "MCPManager_call_tool L servers (sn @ ''__'') arguments E =
        delegate L servers sn server [] arguments E"
    by simp
qed

theorem call_tool_empty_segments_witness:
  "MCPManager_call_tool example_lib [(''fs'', running_session)] ''__x'' (JObj []) (request_r3 []) =
     ([(''fs'', running_session)], Returns (unknown_server [])) \<and>
   MCPManager_call_tool example_lib [(''fs'', running_session)] ''fs__'' (JObj []) (request_r3 []) =
     delegate example_lib [(''fs'', running_session)] ''fs'' running_session [] (JObj []) (request_r3 [])"
proof
  let ?R = "[(''fs'', running_session)]"
  from call_tool_empty_segments [THEN conjunct1, of example_lib ?R "''x''" "JObj []" "request_r3 []"]
  show "MCPManager_call_tool example_lib ?R ''__x'' (JObj []) (request_r3 []) =
     (?R, Returns (unknown_server []))" by simp
next
  let ?R = "[(''fs'', running_session)]"
  have h: "delim_safe ''fs'' \<and> map_of ?R ''fs'' = Some running_session"
    by (simp add: delim_safe_def)
  from call_tool_empty_segments [THEN conjunct2, THEN mp, OF h]
  show "MCPManager_call_tool example_lib ?R ''fs__'' (JObj []) (request_r3 []) =
     delegate example_lib ?R ''fs'' running_session [] (JObj []) (request_r3 [])" by simp
qed

text \<open>
  C10 as stated fails: the name is split at its first \<open>__\<close>, so the name
  \<open>a__b__\<close>, which ends with \<open>__\<close> after the name of the registered
  session \<open>a__b\<close>, is routed to the server \<open>a\<close>, which is not registered.
\<close>

theorem trailing_delimiter_misroutes:
  "map_of [(''a__b'', running_session\<lparr>name := ''a__b''\<rparr>)] ''a__b'' =
     Some (running_session\<lparr>name := ''a__b''\<rparr>) \<and>
   MCPManager_call_tool example_lib [(''a__b'', running_session\<lparr>name := ''a__b''\<rparr>)] ''a__b__''
       (JObj []) (request_r3 []) =
     ([(''a__b'', running_session\<lparr>name := ''a__b''\<rparr>)], Returns (unknown_server ''a''))"
  by (simp add: MCPManager_call_tool_def unknown_server_def)







section \<open>Where the code leaves the specification\<close>

text \<open>
  A line that decodes and is not JSON is skipped: the loop goes on with the next line,
  in the same state.
\<close>

lemma json_error_skipped:
  assumes "\<not> over_limit line" and "line \<noteq> []" and "bytes_decode L line = Some decoded"
    and "json_loads L (str_strip L decoded) = Inl JSONDecodeError"
  shows "read_responses_loop L (line # rest) self = read_responses_loop L rest self"
  using assms by simp

lemma example_send_log_hello:
  "send_request example_lib running_session ''tools/call'' (tools_call ''greet'' (JObj []))
     (request_r3 [log_text @ [CHR 0x0A], hello_text @ [CHR 0x0A]]) =
   (running_session\<lparr>process := Some \<lparr>stdin = [call_request_text @ [CHR 0x0A]]\<rparr>,
      message_id_counter := 1, pending_requests := [], futures := [Done hello_response]\<rparr>,
    Returns hello_response)"
  by (simp add: send_request_def Let_def wait_deadline_def request_r3_def example_running example_registered
      example_dumps_call read_responses_def example_lines_short example_decode log_text_ascii hello_text_ascii
      example_strip example_loads_log example_loads_hello example_handle_hello)

lemma example_log_line_skipped:
  "snd (MCPServer_call_tool example_lib running_session ''greet'' (JObj [])
          (request_r3 [log_text @ [CHR 0x0A], hello_text @ [CHR 0x0A]])) =
   Returns (JObj [(''isError'', JBool False), (''result'', JStr ''hello'')])"
  by (simp add: MCPServer_call_tool_def example_send_log_hello hello_response_def
      call_tool_result_def py_in_def py_get_def and_then_def py_iter_def)

text \<open>A line that does not decode ends the loop, whatever follows it.\<close>

lemma undecodable_line_ends_loop:
  assumes "line \<noteq> []" and "bytes_decode L line = None"
  shows "read_responses_loop L (line # rest) self = self\<lparr>reader_running := False\<rparr>"
  using assms by simp

text \<open>
  So does a line on which \<^verbatim>\<open>json.loads\<close> raises another exception than
  \<^verbatim>\<open>JSONDecodeError\<close>, such as \<^verbatim>\<open>RecursionError\<close> on a line nested too
  deeply.
\<close>

lemma unparsed_line_ends_loop:
  assumes "line \<noteq> []" and "bytes_decode L line = Some decoded"
    and "json_loads L (str_strip L decoded) = Inl e" and "e \<noteq> JSONDecodeError"
  shows "read_responses_loop L (line # rest) self = self\<lparr>reader_running := False\<rparr>"
  using assms by simp

text \<open>And so does a line beyond the limit of the stream, on which \<^verbatim>\<open>readline\<close> raises.\<close>

lemma long_line_ends_loop:
  assumes "over_limit line"
  shows "read_responses_loop L (line # rest) self = self\<lparr>reader_running := False\<rparr>"
  using assms by simp

text \<open>
  C7, where the code fails. A line that is not UTF-8 makes \<^verbatim>\<open>line.decode()\<close>
  raise \<^verbatim>\<open>UnicodeDecodeError\<close>, which the handler for \<^verbatim>\<open>JSONDecodeError\<close>
  inside the loop does not catch: the outer handler ends the reader. The valid
  response on the next line is never read, its request stays pending, and the call
  ends in the timeout error instead of the answer \<open>hello\<close>.
\<close>

theorem undecodable_line_stops_reader:
  "read_responses example_lib [[CHR 0xFF, CHR 0x0A], hello_text @ [CHR 0x0A]]
     (running_session\<lparr>pending_requests := [(''r3'', 0)], futures := [Waiting]\<rparr>) =
     running_session\<lparr>pending_requests := [(''r3'', 0)], futures := [Waiting], reader_running := False\<rparr> \<and>
   snd (MCPServer_call_tool example_lib running_session ''greet'' (JObj [])
          (request_r3 [[CHR 0xFF, CHR 0x0A], hello_text @ [CHR 0x0A]])) =
     Returns (JObj [(''error'', JStr ''Request timeout after 120.0s''), (''isError'', JBool True)])"
proof
  show "read_responses example_lib [[CHR 0xFF, CHR 0x0A], hello_text @ [CHR 0x0A]]
     (running_session\<lparr>pending_requests := [(''r3'', 0)], futures := [Waiting]\<rparr>) =
     running_session\<lparr>pending_requests := [(''r3'', 0)], futures := [Waiting], reader_running := False\<rparr>"
    by (simp add: read_responses_def example_running example_decode)
next
  have "send_request example_lib running_session ''tools/call'' (tools_call ''greet'' (JObj []))
      (request_r3 [[CHR 0xFF, CHR 0x0A], hello_text @ [CHR 0x0A]]) =
    (running_session\<lparr>process := Some \<lparr>stdin = [call_request_text @ [CHR 0x0A]]\<rparr>,
       message_id_counter := 1, pending_requests := [], futures := [Cancelled],
       reader_running := False\<rparr>,
     Returns (timeout_error example_lib running_session))"
    by (simp add: send_request_def Let_def wait_deadline_def request_r3_def example_running example_registered
        example_dumps_call read_responses_def example_lines_short example_decode)
  then show "snd (MCPServer_call_tool example_lib running_session ''greet'' (JObj [])
          (request_r3 [[CHR 0xFF, CHR 0x0A], hello_text @ [CHR 0x0A]])) =
     Returns (JObj [(''error'', JStr ''Request timeout after 120.0s''), (''isError'', JBool True)])"
    by (simp add: MCPServer_call_tool_def call_tool_result_timeout timeout_result_def
        example_running py_format_def example_py_str)
qed

text \<open>
  When the write raises, the request is left with its id in the table and its future
  waiting.
\<close>

lemma write_failure_leaves_entry:
  assumes run: "process self \<noteq> None" and ok: "table_ok self"
    and fails: "drain E = Raises e"
    and silent: "list_all (\<lambda>line. \<not> answers L (request_id E) line) (incoming E)"
  shows "\<exists>self'. send_request L self meth params E = (self', Raises e) \<and>
           map_of (pending_requests self') (request_id E) = Some (length (futures self)) \<and>
           futures self' ! length (futures self) = Waiting"
proof -
  let ?w = "stdin_write (register_request self (request_id E))
              (json_dumps L (make_request (request_id E) meth params) @ [CHR 0x0A])"
  let ?r = "read_responses L (incoming E) ?w"
  have "slot_waiting (request_id E) (length (futures self)) ?r"
    by (rule read_keeps_slot [OF registered_slot_waiting [OF ok] silent])
  moreover from run have run': "(process self = None) = False" by simp
  have "send_request L self meth params E = (?r, Raises e)"
    unfolding send_request_def Let_def run' if_False fails by simp
  ultimately show ?thesis by (simp add: slot_waiting_def)
qed

text \<open>
  A response that arrives after \<^verbatim>\<open>wait_for\<close> has cancelled the future and before
  the handler of the timeout runs: the reader pops the id and fails on the cancelled
  future, which ends the reader, and the handler's \<^verbatim>\<open>del\<close> then raises
  \<^verbatim>\<open>KeyError\<close>.
\<close>

lemma late_response_raises:
  "send_request example_lib running_session ''tools/call'' (tools_call ''greet'' (JObj []))
     \<lparr>request_id = ''r3'', drain = Returns (), incoming = [], late = [hello_text @ [CHR 0x0A]]\<rparr> =
   (running_session\<lparr>process := Some \<lparr>stdin = [call_request_text @ [CHR 0x0A]]\<rparr>,
      message_id_counter := 1, pending_requests := [], futures := [Cancelled],
      reader_running := False\<rparr>,
    Raises (KeyError ''r3''))"
  by (simp add: send_request_def Let_def wait_deadline_def example_running example_registered
      example_dumps_call read_responses_def example_lines_short example_decode hello_text_ascii example_strip
      example_loads_hello handle_message_def pending_id_def py_in_def py_getitem_def
      hello_response_def set_result_def)

text \<open>
  C2, where the code fails. The id is entered in the pending table before the request
  is written; when the write then raises (the pipe to the child is lost),
  \<^verbatim>\<open>_send_request\<close> is left by the exception with the entry still in the
  table and its future still waiting. No timeout and no response will settle it.
\<close>

theorem pending_entry_leaks:
  "send_request example_lib running_session ''tools/call'' (tools_call ''greet'' (JObj []))
     \<lparr>request_id = ''r3'', drain = Raises ConnectionResetError, incoming = [], late = []\<rparr> =
   (running_session\<lparr>process := Some \<lparr>stdin = [call_request_text @ [CHR 0x0A]]\<rparr>,
      message_id_counter := 1, pending_requests := [(''r3'', 0)], futures := [Waiting]\<rparr>,
    Raises ConnectionResetError)"
  by (simp add: send_request_def Let_def example_running example_registered example_dumps_call
      read_responses_def)


end
